theory Spec2Isabelle
  imports Complex_Main "HOL-Library.Sublist"
begin

section \<open>Relay debug toolkit (\<^verbatim>\<open>src/lib/relay-debug.ts\<close>)\<close>

text \<open>
  The toolkit opens WebSocket connections to relays and reacts to the events the browser
  dispatches on them. The embedding keeps that shape: every handler of the source is a
  function on an explicit state, and the environment (the relay, the network, the timers
  of the event loop) is a script of timed events. Time is a \<^typ>\<open>real\<close> number of
  milliseconds, measured from the moment the operation is called; the socket of an
  operation is constructed at that moment, so \<^verbatim>\<open>performance.now() - startTime\<close> is
  the time of the event at which the code resumes. Floating-point rounding is not modelled.
\<close>

subsection \<open>JavaScript values\<close>

text \<open>What \<^verbatim>\<open>JSON.parse\<close> and \<^verbatim>\<open>response.json()\<close> can return, and \<^verbatim>\<open>undefined\<close>
  for a property that is absent.\<close>

datatype json =
    JUndefined
  | JNull
  | JBool bool
  | JNum real
  | JStr string
  | JArr "json list"
  | JObj "(string \<times> json) list"

text \<open>A thrown value: an \<^verbatim>\<open>Error\<close> object with its message, or anything else.\<close>

datatype exn = JsError string | NonError

text \<open>\<^verbatim>\<open>error instanceof Error ? error.message : 'Unknown error'\<close>\<close>

fun message_of :: "exn \<Rightarrow> string" where
  "message_of (JsError m) = m"
| "message_of NonError = ''Unknown error''"

datatype 'a promise = Pending | Resolved 'a | Rejected exn

fun truthy :: "json \<Rightarrow> bool" where
  "truthy JUndefined = False"
| "truthy JNull = False"
| "truthy (JBool b) = b"
| "truthy (JNum x) = (x \<noteq> 0)"
| "truthy (JStr s) = (s \<noteq> [])"
| "truthy (JArr xs) = True"
| "truthy (JObj kvs) = True"

definition digit :: "nat \<Rightarrow> char" where
  "digit n = char_of (48 + n)"

function decimal :: "nat \<Rightarrow> string" where
  "decimal n = (if n < 10 then [digit n] else decimal (n div 10) @ [digit (n mod 10)])"
  by pat_completeness auto
termination
  by (relation "measure id") auto

declare decimal.simps [simp del]

text \<open>Property access \<^verbatim>\<open>v[i]\<close> with a number: a \<^verbatim>\<open>TypeError\<close> on \<^verbatim>\<open>null\<close> and
  \<^verbatim>\<open>undefined\<close>, the element of an array, the character of a string, the property
  named by the decimal numeral of an object (the last binding of a duplicated key wins in
  \<^verbatim>\<open>JSON.parse\<close>), and \<^verbatim>\<open>undefined\<close> otherwise.\<close>

fun get_index :: "json \<Rightarrow> nat \<Rightarrow> exn + json" where
  "get_index JUndefined i = Inl (JsError ''TypeError'')"
| "get_index JNull i = Inl (JsError ''TypeError'')"
| "get_index (JArr xs) i = Inr (if i < length xs then xs ! i else JUndefined)"
| "get_index (JStr s) i = Inr (if i < length s then JStr [s ! i] else JUndefined)"
| "get_index (JObj kvs) i =
     Inr (case map_of (rev kvs) (decimal i) of Some v \<Rightarrow> v | None \<Rightarrow> JUndefined)"
| "get_index (JBool b) i = Inr JUndefined"
| "get_index (JNum x) i = Inr JUndefined"

text \<open>Property access \<^verbatim>\<open>v.name\<close> for a name that no array, string, number or boolean
  has of its own.\<close>

fun get_prop :: "json \<Rightarrow> string \<Rightarrow> exn + json" where
  "get_prop JUndefined k = Inl (JsError ''TypeError'')"
| "get_prop JNull k = Inl (JsError ''TypeError'')"
| "get_prop (JObj kvs) k =
     Inr (case map_of (rev kvs) k of Some v \<Rightarrow> v | None \<Rightarrow> JUndefined)"
| "get_prop (JArr xs) k = Inr JUndefined"
| "get_prop (JStr s) k = Inr JUndefined"
| "get_prop (JBool b) k = Inr JUndefined"
| "get_prop (JNum x) k = Inr JUndefined"

text \<open>The method call \<^verbatim>\<open>v.includes(n)\<close> for a number \<open>n\<close>: membership in an array,
  the substring test of a string on the numeral of \<open>n\<close>, and a \<^verbatim>\<open>TypeError\<close> (not a
  function) on every other value that JSON can carry.\<close>

fun js_includes :: "json \<Rightarrow> nat \<Rightarrow> exn + bool" where
  "js_includes (JArr xs) n = Inr (JNum (real n) \<in> set xs)"
| "js_includes (JStr s) n = Inr (sublist (decimal n) s)"
| "js_includes JUndefined n = Inl (JsError ''TypeError'')"
| "js_includes JNull n = Inl (JsError ''TypeError'')"
| "js_includes (JBool b) n = Inl (JsError ''TypeError'')"
| "js_includes (JNum x) n = Inl (JsError ''TypeError'')"
| "js_includes (JObj kvs) n = Inl (JsError ''TypeError'')"

text \<open>The result of a division of two numbers, as JavaScript has it for a divisor that is
  zero. The quotient itself is the quotient of the real numbers; the code has the double
  nearest to it.\<close>

datatype number = Num real | NaN | PosInfinity | NegInfinity

definition js_div :: "real \<Rightarrow> real \<Rightarrow> number" where
  "js_div a b =
     (if b \<noteq> 0 then Num (a / b)
      else if a = 0 then NaN
      else if 0 < a then PosInfinity else NegInfinity)"

subsection \<open>Data model (\<^verbatim>\<open>src/types/nostr-debug.ts\<close>)\<close>

record NostrEvent =
  id_of :: string
  pubkey :: string
  created_at :: real
  kind :: real
  tags :: "string list list"
  content :: string
  sig :: string

type_synonym SignedEvent = NostrEvent

datatype status = Connected | Disconnected | Connecting | StatusError

datatype log_type = Sent | Received | LogError | Info

text \<open>The \<^verbatim>\<open>data\<close> of a log entry: the error event, or the data of a message event.
  The data of a message is kept as what \<^verbatim>\<open>JSON.parse\<close> makes of it, \<open>None\<close> when
  it throws.\<close>

datatype log_data = ErrorEvent | MessageData "json option"

record RelayLog =
  timestamp :: real
  log_type :: log_type
  log_message :: string
  log_data :: "log_data option"

text \<open>The frames the toolkit sends, before \<^verbatim>\<open>JSON.stringify\<close>.\<close>

datatype frame = REQ string | CLOSE string | EVENT SignedEvent

datatype ready_state = CONNECTING | OPEN | CLOSING | CLOSED

datatype ws_call = Send frame | CloseCall

text \<open>The browser's socket object: its ready state and the calls made on it that reached
  the transport, in order.\<close>

record WebSocket =
  readyState :: ready_state
  calls :: "ws_call list"

text \<open>\<^verbatim>\<open>ws.send(data)\<close> throws while the socket is connecting and drops the data once
  it is closing or closed.\<close>

definition ws_send :: "WebSocket \<Rightarrow> frame \<Rightarrow> exn + WebSocket" where
  "ws_send ws f =
     (if readyState ws = CONNECTING then Inl (JsError ''InvalidStateError'')
      else if readyState ws = OPEN then Inr (ws\<lparr>calls := calls ws @ [Send f]\<rparr>)
      else Inr ws)"

text \<open>\<^verbatim>\<open>ws.close()\<close> does nothing on a closing or closed socket.\<close>

definition ws_close :: "WebSocket \<Rightarrow> WebSocket" where
  "ws_close ws =
     (if readyState ws = CLOSING \<or> readyState ws = CLOSED then ws
      else ws\<lparr>readyState := CLOSING, calls := calls ws @ [CloseCall]\<rparr>)"

record RelayConnection =
  url :: string
  websocket :: "WebSocket option"
  status :: status
  messageCount :: nat
  errorCount :: nat
  lastActivity :: real
  logs :: "RelayLog list"

subsection \<open>The environment of one socket\<close>

datatype ws_event = Open | WsError | Close | Message "json option"

type_synonym script = "(real \<times> ws_event) list"

text \<open>\<^verbatim>\<open>new WebSocket(url)\<close> either throws, or returns a socket on which the browser
  dispatches the events of the script, in this order, each at its time.\<close>

datatype ws_behaviour = CtorThrows exn | Events script

subsection \<open>\<^verbatim>\<open>connectToRelay\<close>\<close>

datatype settle = Unsettled | Fulfilled | Failed exn

text \<open>The state the closures of \<^verbatim>\<open>connectToRelay\<close> share: the connection object, whether
  the timeout is still armed, and the state of the returned promise.\<close>

record connect_state =
  connection :: RelayConnection
  timeoutId :: bool
  settled :: settle

text \<open>\<^verbatim>\<open>resolve\<close> and \<^verbatim>\<open>reject\<close> act on a pending promise only.\<close>

definition resolve :: "connect_state \<Rightarrow> connect_state" where
  "resolve s = (if settled s = Unsettled then s\<lparr>settled := Fulfilled\<rparr> else s)"

definition reject :: "exn \<Rightarrow> connect_state \<Rightarrow> connect_state" where
  "reject e s = (if settled s = Unsettled then s\<lparr>settled := Failed e\<rparr> else s)"

definition push_log :: "RelayLog \<Rightarrow> RelayConnection \<Rightarrow> RelayConnection" where
  "push_log l c = c\<lparr>logs := logs c @ [l]\<rparr>"

definition is_open :: "RelayConnection \<Rightarrow> bool" where
  "is_open c = (case websocket c of None \<Rightarrow> False | Some ws \<Rightarrow> readyState ws = OPEN)"

definition close_socket :: "RelayConnection \<Rightarrow> RelayConnection" where
  "close_socket c = c\<lparr>websocket := map_option ws_close (websocket c)\<rparr>"

text \<open>The callback of \<^verbatim>\<open>setTimeout(..., timeout)\<close>, lines 36-47.\<close>

definition timeout_callback :: "real \<Rightarrow> connect_state \<Rightarrow> connect_state" where
  "timeout_callback now s =
     (let s = s\<lparr>timeoutId := False\<rparr> in
      if \<not> is_open (connection s) then
        reject (JsError ''Connection timeout'')
          (s\<lparr>connection :=
               push_log \<lparr>timestamp = now, log_type = LogError,
                         log_message = ''Connection timeout'', log_data = None\<rparr>
                 ((close_socket (connection s))\<lparr>status := StatusError\<rparr>)\<rparr>)
      else s)"

text \<open>\<^verbatim>\<open>ws.onopen\<close>, lines 49-59.\<close>

definition onopen :: "real \<Rightarrow> connect_state \<Rightarrow> connect_state" where
  "onopen now s =
     resolve
       (s\<lparr>timeoutId := False,
          connection :=
            push_log \<lparr>timestamp = now, log_type = Info,
                      log_message = ''Connected to relay'', log_data = None\<rparr>
              ((connection s)\<lparr>status := Connected, lastActivity := now\<rparr>)\<rparr>)"

text \<open>\<^verbatim>\<open>ws.onerror\<close>, lines 61-71: the timeout is cleared and the promise is left as
  it is.\<close>

definition onerror :: "real \<Rightarrow> connect_state \<Rightarrow> connect_state" where
  "onerror now s =
     s\<lparr>timeoutId := False,
       connection :=
         push_log \<lparr>timestamp = now, log_type = LogError,
                   log_message = ''WebSocket error'', log_data = Some ErrorEvent\<rparr>
           ((connection s)\<lparr>status := StatusError,
                            errorCount := Suc (errorCount (connection s))\<rparr>)\<rparr>"

text \<open>\<^verbatim>\<open>ws.onmessage\<close>, lines 73-82.\<close>

definition onmessage :: "real \<Rightarrow> json option \<Rightarrow> connect_state \<Rightarrow> connect_state" where
  "onmessage now d s =
     s\<lparr>connection :=
         push_log \<lparr>timestamp = now, log_type = Received,
                   log_message = ''Message received'', log_data = Some (MessageData d)\<rparr>
           ((connection s)\<lparr>messageCount := Suc (messageCount (connection s)),
                            lastActivity := now\<rparr>)\<rparr>"

text \<open>\<^verbatim>\<open>ws.onclose\<close>, lines 84-91.\<close>

definition onclose :: "real \<Rightarrow> connect_state \<Rightarrow> connect_state" where
  "onclose now s =
     s\<lparr>connection :=
         push_log \<lparr>timestamp = now, log_type = Info,
                   log_message = ''Connection closed'', log_data = None\<rparr>
           ((connection s)\<lparr>status := Disconnected\<rparr>)\<rparr>"

text \<open>What the browser does to the ready state before it dispatches an event: a socket
  is open when \<^verbatim>\<open>open\<close> fires and closed when \<^verbatim>\<open>error\<close> or \<^verbatim>\<open>close\<close> fires.\<close>

fun browser_state :: "ws_event \<Rightarrow> ready_state \<Rightarrow> ready_state" where
  "browser_state Open r = OPEN"
| "browser_state WsError r = CLOSED"
| "browser_state Close r = CLOSED"
| "browser_state (Message d) r = r"

definition set_ready :: "ws_event \<Rightarrow> RelayConnection \<Rightarrow> RelayConnection" where
  "set_ready ev c =
     c\<lparr>websocket :=
         map_option (\<lambda>ws. ws\<lparr>readyState := browser_state ev (readyState ws)\<rparr>) (websocket c)\<rparr>"

fun handler :: "real \<Rightarrow> ws_event \<Rightarrow> connect_state \<Rightarrow> connect_state" where
  "handler now Open s = onopen now s"
| "handler now WsError s = onerror now s"
| "handler now Close s = onclose now s"
| "handler now (Message d) s = onmessage now d s"

definition dispatch :: "real \<Rightarrow> ws_event \<Rightarrow> connect_state \<Rightarrow> connect_state" where
  "dispatch now ev s = handler now ev (s\<lparr>connection := set_ready ev (connection s)\<rparr>)"

text \<open>The event loop until the promise settles. An event that is dispatched before the
  deadline of the armed timeout runs first; otherwise the timeout fires first. When no
  event is left, an armed timeout still fires. The result is the state, the time at which
  the promise settled, and the events still to come.\<close>

fun connect_run ::
  "real \<Rightarrow> connect_state \<Rightarrow> script \<Rightarrow> connect_state \<times> real \<times> script" where
  "connect_run timeout s [] =
     (if timeoutId s then (timeout_callback timeout s, timeout, []) else (s, timeout, []))"
| "connect_run timeout s ((t, ev) # rest) =
     (let s1 = (if timeoutId s \<and> timeout \<le> t then timeout_callback timeout s else s) in
      if settled s1 \<noteq> Unsettled then (s1, timeout, (t, ev) # rest)
      else
        let s2 = dispatch t ev s1 in
        if settled s2 \<noteq> Unsettled then (s2, t, rest) else connect_run timeout s2 rest)"

text \<open>The executor of the promise, lines 21-35 and 93-101: the state when the call of
  \<^verbatim>\<open>connectToRelay\<close> returns its promise.\<close>

definition connection0 :: "string \<Rightarrow> RelayConnection" where
  "connection0 u =
     \<lparr>url = u, websocket = None, status = Disconnected, messageCount = 0,
      errorCount = 0, lastActivity = 0, logs = []\<rparr>"

definition executor :: "string \<Rightarrow> ws_behaviour \<Rightarrow> connect_state" where
  "executor u b =
     (case b of
        CtorThrows e \<Rightarrow>
          \<lparr>connection =
             push_log \<lparr>timestamp = 0, log_type = LogError,
                       log_message = ''Connection failed: '' @ message_of e,
                       log_data = None\<rparr>
               ((connection0 u)\<lparr>status := StatusError\<rparr>),
           timeoutId = False, settled = Failed e\<rparr>
      | Events evs \<Rightarrow>
          \<lparr>connection =
             (connection0 u)\<lparr>websocket := Some \<lparr>readyState = CONNECTING, calls = []\<rparr>,
                             status := Connecting\<rparr>,
           timeoutId = True, settled = Unsettled\<rparr>)"

definition connectToRelay ::
  "string \<Rightarrow> real \<Rightarrow> ws_behaviour \<Rightarrow> connect_state \<times> real \<times> script" where
  "connectToRelay u timeout b =
     (case b of
        CtorThrows e \<Rightarrow> (executor u b, 0, [])
      | Events evs \<Rightarrow> connect_run timeout (executor u b) evs)"

text \<open>The promise a caller of \<^verbatim>\<open>connectToRelay\<close> awaits.\<close>

definition connect_promise ::
  "connect_state \<times> real \<times> script \<Rightarrow> RelayConnection promise" where
  "connect_promise r =
     (case settled (fst r) of
        Unsettled \<Rightarrow> Pending
      | Fulfilled \<Rightarrow> Resolved (connection (fst r))
      | Failed e \<Rightarrow> Rejected e)"

subsection \<open>\<^verbatim>\<open>pingRelay\<close>\<close>

text \<open>Every operation below returns the promise of its result and the connection object
  as it is when the operation settles. \<^verbatim>\<open>await connectToRelay(...)\<close> resumes at the
  event that settled the promise, and never when it stays pending.\<close>

definition pingRelay :: "string \<Rightarrow> ws_behaviour \<Rightarrow> real promise \<times> RelayConnection" where
  "pingRelay u b =
     (case connectToRelay u 5000 b of
        (s, tc, rest) \<Rightarrow>
          (case settled s of
             Unsettled \<Rightarrow> (Pending, connection s)
           | Failed e \<Rightarrow>
               (Rejected (JsError (''Ping failed: '' @ message_of e)), connection s)
           | Fulfilled \<Rightarrow>
               if status (connection s) = Connected
               then (Resolved tc, close_socket (connection s))
               else (Rejected (JsError (''Ping failed: '' @ ''Failed to connect'')),
                     connection s)))"

subsection \<open>\<^verbatim>\<open>healthCheckRelay\<close>\<close>

record RelayHealthCheck =
  hc_url :: string
  isHealthy :: bool
  hc_latency :: real
  supportsRead :: bool
  supportsWrite :: bool
  responseTime :: real
  hc_timestamp :: real
  errorMessage :: "string option"

text \<open>The events dispatched while the operation waits for a timer: the handlers that
  \<^verbatim>\<open>connectToRelay\<close> installed keep running.\<close>

fun run_until :: "real \<Rightarrow> connect_state \<Rightarrow> script \<Rightarrow> connect_state" where
  "run_until deadline s [] = s"
| "run_until deadline s ((t, ev) # rest) =
     (if deadline \<le> t then s else run_until deadline (dispatch t ev s) rest)"

definition set_socket :: "WebSocket \<Rightarrow> connect_state \<Rightarrow> connect_state" where
  "set_socket ws s = s\<lparr>connection := (connection s)\<lparr>websocket := Some ws\<rparr>\<rparr>"

text \<open>Lines 130-148. An exception of the first \<^verbatim>\<open>send\<close> is thrown in the executor
  and rejects the awaited promise, which the \<^verbatim>\<open>catch\<close> of the operation turns into
  an error message. An exception of the second \<^verbatim>\<open>send\<close> is thrown in the timer
  callback, before \<^verbatim>\<open>resolve()\<close>: the awaited promise stays pending.\<close>

definition read_test ::
  "real \<Rightarrow> connect_state \<Rightarrow> script \<Rightarrow> RelayHealthCheck \<Rightarrow>
     RelayHealthCheck promise \<times> RelayConnection" where
  "read_test tc s rest result =
     (let subId = ''health_check_'' @ decimal (nat \<lfloor>tc\<rfloor>) in
      case websocket (connection s) of
        None \<Rightarrow>
          (Resolved (result\<lparr>errorMessage := Some ''TypeError''\<rparr>), connection s)
      | Some ws \<Rightarrow>
          (case ws_send ws (REQ subId) of
             Inl e \<Rightarrow>
               (Resolved (result\<lparr>errorMessage := Some (message_of e)\<rparr>), connection s)
           | Inr ws1 \<Rightarrow>
               let result = result\<lparr>supportsRead := True\<rparr>;
                   s1 = run_until (tc + 1000) (set_socket ws1 s) rest
               in
               (case websocket (connection s1) of
                  None \<Rightarrow> (Pending, connection s1)
                | Some ws2 \<Rightarrow>
                    (case ws_send ws2 (CLOSE subId) of
                       Inl e \<Rightarrow> (Pending, connection s1)
                     | Inr ws3 \<Rightarrow>
                         (Resolved (result\<lparr>supportsWrite := True\<rparr>),
                          close_socket (connection (set_socket ws3 s1)))))))"

definition healthCheckRelay ::
  "string \<Rightarrow> ws_behaviour \<Rightarrow> RelayHealthCheck promise \<times> RelayConnection" where
  "healthCheckRelay u b =
     (let result =
        \<lparr>hc_url = u, isHealthy = False, hc_latency = 0, supportsRead = False,
         supportsWrite = False, responseTime = 0, hc_timestamp = 0, errorMessage = None\<rparr>
      in
      case connectToRelay u 5000 b of
        (s, tc, rest) \<Rightarrow>
          (case settled s of
             Unsettled \<Rightarrow> (Pending, connection s)
           | Failed e \<Rightarrow>
               (Resolved (result\<lparr>errorMessage := Some (message_of e)\<rparr>), connection s)
           | Fulfilled \<Rightarrow>
               if status (connection s) = Connected \<and> websocket (connection s) \<noteq> None
               then read_test tc s rest
                      (result\<lparr>isHealthy := True, responseTime := tc, hc_latency := tc\<rparr>)
               else (Resolved result, connection s)))"

subsection \<open>\<^verbatim>\<open>publishEventToRelay\<close>\<close>

text \<open>\<^verbatim>\<open>success\<close> and \<^verbatim>\<open>message\<close> are assigned elements of the parsed frame as
  they are, so they are kept as JavaScript values.\<close>

record RelayPublishResult =
  relay :: string
  success :: json
  eventId :: string
  message :: json
  pr_timestamp :: real
  latency :: real

text \<open>What the closures of the awaited promise share (lines 200-227): the connection
  with the handlers of \<^verbatim>\<open>connectToRelay\<close>, the result under construction, whether
  \<^verbatim>\<open>messageHandler\<close> is registered, and the state of the promise.\<close>

record publish_state =
  conn_state :: connect_state
  result :: RelayPublishResult
  listening :: bool
  publish_settled :: settle

text \<open>\<^verbatim>\<open>messageHandler\<close>, lines 203-217. \<^verbatim>\<open>JSON.parse\<close> or an index into
  \<^verbatim>\<open>null\<close> may throw; the \<^verbatim>\<open>catch\<close> ignores it. An index into a value throws
  for every index or for none, so the four reads are taken together.\<close>

definition messageHandler ::
  "real \<Rightarrow> SignedEvent \<Rightarrow> json option \<Rightarrow> publish_state \<Rightarrow> publish_state" where
  "messageHandler now event d ps =
     (case d of
        None \<Rightarrow> ps
      | Some response \<Rightarrow>
          (case (get_index response 0, get_index response 1,
                 get_index response 2, get_index response 3) of
             (Inr r0, Inr r1, Inr r2, Inr r3) \<Rightarrow>
               if r0 = JStr ''OK'' \<and> r1 = JStr (id_of event) then
                 ps\<lparr>result :=
                      (result ps)\<lparr>success := r2,
                                   message := (if truthy r3 then r3 else JStr ''Event published''),
                                   latency := now\<rparr>,
                    listening := False,
                    publish_settled :=
                      (if publish_settled ps = Unsettled then Fulfilled else publish_settled ps)\<rparr>
               else ps
           | _ \<Rightarrow> ps))"

text \<open>The callback of \<^verbatim>\<open>setTimeout(..., 10000)\<close>, lines 223-226.\<close>

definition publish_timeout :: "publish_state \<Rightarrow> publish_state" where
  "publish_timeout ps =
     ps\<lparr>listening := False,
        publish_settled :=
          (if publish_settled ps = Unsettled then Failed (JsError ''Publish timeout'')
           else publish_settled ps)\<rparr>"

text \<open>A message event runs \<^verbatim>\<open>ws.onmessage\<close> and then the registered listener.\<close>

definition publish_dispatch ::
  "real \<Rightarrow> SignedEvent \<Rightarrow> ws_event \<Rightarrow> publish_state \<Rightarrow> publish_state" where
  "publish_dispatch now event ev ps =
     (let ps1 = ps\<lparr>conn_state := dispatch now ev (conn_state ps)\<rparr> in
      case ev of
        Message d \<Rightarrow> if listening ps1 then messageHandler now event d ps1 else ps1
      | _ \<Rightarrow> ps1)"

text \<open>The event loop until the awaited promise settles: the timer is never cleared, so it
  fires at its deadline unless the promise settled before.\<close>

fun publish_wait ::
  "real \<Rightarrow> SignedEvent \<Rightarrow> publish_state \<Rightarrow> script \<Rightarrow> publish_state \<times> real" where
  "publish_wait deadline event ps [] = (publish_timeout ps, deadline)"
| "publish_wait deadline event ps ((t, ev) # rest) =
     (if deadline \<le> t then (publish_timeout ps, deadline)
      else
        let ps1 = publish_dispatch t event ev ps in
        if publish_settled ps1 \<noteq> Unsettled then (ps1, t)
        else publish_wait deadline event ps1 rest)"

text \<open>The \<^verbatim>\<open>catch\<close> of lines 234-237.\<close>

definition publish_failed :: "exn \<Rightarrow> real \<Rightarrow> RelayPublishResult \<Rightarrow> RelayPublishResult" where
  "publish_failed e now r = r\<lparr>message := JStr (message_of e), latency := now\<rparr>"

definition publish_exchange ::
  "real \<Rightarrow> connect_state \<Rightarrow> script \<Rightarrow> SignedEvent \<Rightarrow> RelayPublishResult \<Rightarrow>
     RelayPublishResult promise \<times> RelayConnection" where
  "publish_exchange tc s rest event r =
     (case websocket (connection s) of
        None \<Rightarrow> (Resolved (publish_failed (JsError ''TypeError'') tc r), connection s)
      | Some ws \<Rightarrow>
          (case ws_send ws (EVENT event) of
             Inl e \<Rightarrow> (Resolved (publish_failed e tc r), connection s)
           | Inr ws1 \<Rightarrow>
               (case publish_wait (tc + 10000) event
                       \<lparr>conn_state = set_socket ws1 s, result = r, listening = True,
                        publish_settled = Unsettled\<rparr> rest of
                  (ps, t) \<Rightarrow>
                    (case publish_settled ps of
                       Fulfilled \<Rightarrow>
                         (Resolved (result ps), close_socket (connection (conn_state ps)))
                     | Failed e \<Rightarrow>
                         (Resolved (publish_failed e t (result ps)),
                          connection (conn_state ps))
                     | Unsettled \<Rightarrow> (Pending, connection (conn_state ps))))))"

definition publishEventToRelay ::
  "string \<Rightarrow> SignedEvent \<Rightarrow> ws_behaviour \<Rightarrow> RelayPublishResult promise \<times> RelayConnection" where
  "publishEventToRelay u event b =
     (let r = \<lparr>relay = u, success = JBool False, eventId = id_of event,
               message = JUndefined, pr_timestamp = 0, latency = 0\<rparr>
      in
      case connectToRelay u 5000 b of
        (s, tc, rest) \<Rightarrow>
          (case settled s of
             Unsettled \<Rightarrow> (Pending, connection s)
           | Failed e \<Rightarrow> (Resolved (publish_failed e tc r), connection s)
           | Fulfilled \<Rightarrow>
               if status (connection s) = Connected \<and> websocket (connection s) \<noteq> None
               then publish_exchange tc s rest event r
               else (Resolved (publish_failed (JsError ''Failed to connect to relay'') tc r),
                     connection s)))"

subsection \<open>\<^verbatim>\<open>Promise.all\<close> and the batch operations\<close>

text \<open>\<^verbatim>\<open>Promise.all\<close> keeps one slot per input promise. The promises settle in an order
  that the environment chooses (\<open>order\<close> lists their indices as they settle); a fulfilled
  promise writes its value into its own slot, the first rejection rejects the whole, and
  the whole is fulfilled with the slots once every slot is written. A promise that stays
  pending never writes.\<close>

fun all_settle :: "'a promise list \<Rightarrow> nat list \<Rightarrow> 'a option list \<Rightarrow> 'a list promise" where
  "all_settle ps [] values = Pending"
| "all_settle ps (i # order) values =
     (if i < length ps then
        (case ps ! i of
           Pending \<Rightarrow> all_settle ps order values
         | Rejected e \<Rightarrow> Rejected e
         | Resolved v \<Rightarrow>
             (case those (values[i := Some v]) of
                Some vs \<Rightarrow> Resolved vs
              | None \<Rightarrow> all_settle ps order (values[i := Some v])))
      else all_settle ps order values)"

definition promise_all :: "nat list \<Rightarrow> 'a promise list \<Rightarrow> 'a list promise" where
  "promise_all order ps =
     (if ps = [] then Resolved [] else all_settle ps order (replicate (length ps) None))"

text \<open>The socket of the \<open>i\<close>-th call of the batch behaves as \<open>behs i\<close>.\<close>

definition batchPublishToRelays ::
  "nat list \<Rightarrow> string list \<Rightarrow> SignedEvent \<Rightarrow> (nat \<Rightarrow> ws_behaviour) \<Rightarrow>
     RelayPublishResult list promise" where
  "batchPublishToRelays order urls event behs =
     promise_all order
       (map (\<lambda>(i, u). fst (publishEventToRelay u event (behs i))) (enumerate 0 urls))"

subsection \<open>\<^verbatim>\<open>getRelayInfo\<close>\<close>

record RelayInfo =
  info_url :: string
  info_status :: status
  info_latency :: "real option"
  lastConnected :: "real option"
  info_errorMessage :: "string option"
  supported_nips :: json
  software :: json
  version :: json

text \<open>What \<^verbatim>\<open>fetch\<close> does with the request: it never settles, it rejects, or it
  answers with \<^verbatim>\<open>response.ok\<close>, \<^verbatim>\<open>response.status\<close> and what
  \<^verbatim>\<open>response.json()\<close> gives, a thrown value or the parsed document. The request
  address only selects this behaviour.\<close>

datatype fetch_behaviour = FetchNever | FetchThrows exn | Response bool nat "exn + json"

text \<open>The \<^verbatim>\<open>catch\<close> of lines 281-284.\<close>

definition info_failed :: "exn \<Rightarrow> RelayInfo \<Rightarrow> RelayInfo" where
  "info_failed e info =
     info\<lparr>info_errorMessage := Some (message_of e), info_status := StatusError\<rparr>"

definition getRelayInfo :: "string \<Rightarrow> fetch_behaviour \<Rightarrow> RelayInfo promise" where
  "getRelayInfo u f =
     (let info =
        \<lparr>info_url = u, info_status = Disconnected, info_latency = None,
         lastConnected = None, info_errorMessage = None, supported_nips = JUndefined,
         software = JUndefined, version = JUndefined\<rparr>
      in
      case f of
        FetchNever \<Rightarrow> Pending
      | FetchThrows e \<Rightarrow> Resolved (info_failed e info)
      | Response ok st body \<Rightarrow>
          if ok then
            (case body of
               Inl e \<Rightarrow> Resolved (info_failed e info)
             | Inr d \<Rightarrow>
                 (case get_prop d ''supported_nips'' of
                    Inl e \<Rightarrow> Resolved (info_failed e info)
                  | Inr nips \<Rightarrow>
                      (case get_prop d ''software'' of
                         Inl e \<Rightarrow> Resolved (info_failed e (info\<lparr>supported_nips := nips\<rparr>))
                       | Inr sw \<Rightarrow>
                           (case get_prop d ''version'' of
                              Inl e \<Rightarrow>
                                Resolved (info_failed e
                                  (info\<lparr>supported_nips := nips, software := sw\<rparr>))
                            | Inr v \<Rightarrow>
                                Resolved
                                  (info\<lparr>supported_nips := nips, software := sw,
                                        version := v, info_status := Connected\<rparr>)))))
          else
            Resolved
              (info\<lparr>info_errorMessage := Some (''HTTP '' @ decimal st),
                    info_status := StatusError\<rparr>))"

subsection \<open>\<^verbatim>\<open>testRelayCompliance\<close>\<close>

record RelayTestResult =
  tr_url :: string
  nip01Compliant :: bool
  supportsAuth :: bool
  supportsCount :: bool
  averageLatency :: number
  successRate :: number
  tested :: nat

text \<open>Lines 307-311. The result is the value or the exception of the block, with the test
  result as the assignments made so far have left it.\<close>

definition capability_flags :: "RelayInfo \<Rightarrow> RelayTestResult \<Rightarrow> (exn + unit) \<times> RelayTestResult" where
  "capability_flags info r =
     (if truthy (supported_nips info) then
        (case js_includes (supported_nips info) 1 of
           Inl e \<Rightarrow> (Inl e, r)
         | Inr b1 \<Rightarrow>
             (case js_includes (supported_nips info) 42 of
                Inl e \<Rightarrow> (Inl e, r\<lparr>nip01Compliant := b1\<rparr>)
              | Inr b42 \<Rightarrow>
                  (case js_includes (supported_nips info) 45 of
                     Inl e \<Rightarrow> (Inl e, r\<lparr>nip01Compliant := b1, supportsAuth := b42\<rparr>)
                   | Inr b45 \<Rightarrow>
                       (Inr (), r\<lparr>nip01Compliant := b1, supportsAuth := b42,
                                   supportsCount := b45\<rparr>))))
      else (Inr (), r))"

text \<open>The loop of lines 318-326; the socket of the \<open>i\<close>-th ping behaves as \<open>pings i\<close>.
  The loop does not come back (\<open>None\<close>) when a ping stays pending.\<close>

function ping_loop ::
  "string \<Rightarrow> (nat \<Rightarrow> ws_behaviour) \<Rightarrow> nat \<Rightarrow> nat \<Rightarrow> real list \<Rightarrow> nat \<Rightarrow>
     (real list \<times> nat) option" where
  "ping_loop u pings testCount i latencies successCount =
     (if i < testCount then
        (case fst (pingRelay u (pings i)) of
           Pending \<Rightarrow> None
         | Resolved l \<Rightarrow>
             ping_loop u pings testCount (Suc i) (latencies @ [l]) (Suc successCount)
         | Rejected e \<Rightarrow> ping_loop u pings testCount (Suc i) latencies successCount)
      else Some (latencies, successCount))"
  by pat_completeness auto
termination
  by (relation "measure (\<lambda>(u, pings, testCount, i, latencies, successCount). testCount - i)")
    auto

declare ping_loop.simps [simp del]

text \<open>\<^verbatim>\<open>latencies.length > 0 ? latencies.reduce((a, b) => a + b, 0) / latencies.length : 0\<close>\<close>

definition average :: "real list \<Rightarrow> number" where
  "average latencies =
     (if length latencies > 0
      then js_div (foldl (+) 0 latencies) (real (length latencies))
      else Num 0)"

definition testRelayCompliance ::
  "string \<Rightarrow> fetch_behaviour \<Rightarrow> (nat \<Rightarrow> ws_behaviour) \<Rightarrow> RelayTestResult promise" where
  "testRelayCompliance u f pings =
     (let r = \<lparr>tr_url = u, nip01Compliant = False, supportsAuth = False,
               supportsCount = False, averageLatency = Num 0, successRate = Num 0,
               tested = 0\<rparr>
      in
      case getRelayInfo u f of
        Pending \<Rightarrow> Pending
      | Rejected e \<Rightarrow> Resolved r
      | Resolved info \<Rightarrow>
          (case capability_flags info r of
             (Inl e, r1) \<Rightarrow> Resolved r1
           | (Inr x, r1) \<Rightarrow>
               let testCount = 3 in
               (case ping_loop u pings testCount 0 [] 0 of
                  None \<Rightarrow> Pending
                | Some (latencies, successCount) \<Rightarrow>
                    Resolved
                      (r1\<lparr>tested := testCount,
                          successRate := js_div (real successCount) (real testCount),
                          averageLatency := average latencies\<rparr>))))"

text \<open>The \<open>i\<close>-th call of the comparison has the metadata answer \<open>fs i\<close> and the
  sockets \<open>pingss i\<close>.\<close>

definition compareRelays ::
  "nat list \<Rightarrow> string list \<Rightarrow> (nat \<Rightarrow> fetch_behaviour) \<Rightarrow> (nat \<Rightarrow> nat \<Rightarrow> ws_behaviour) \<Rightarrow>
     RelayTestResult list promise" where
  "compareRelays order urls fs pingss =
     promise_all order
       (map (\<lambda>(i, u). testRelayCompliance u (fs i) (pingss i)) (enumerate 0 urls))"

subsection \<open>\<^verbatim>\<open>stressTestRelay\<close>\<close>

record StressTestResult =
  st_url :: string
  totalConnections :: int
  successfulConnections :: nat
  failedConnections :: nat
  st_averageLatency :: number
  duration :: real

text \<open>The variables the attempts share, lines 417-419.\<close>

record stress_state =
  latencies :: "real list"
  successCount :: nat
  failCount :: nat

text \<open>What an attempt does when its \<^verbatim>\<open>connectToRelay\<close> has settled, lines 425-439.\<close>

definition attempt_body :: "connect_state \<times> real \<times> script \<Rightarrow> stress_state \<Rightarrow> stress_state" where
  "attempt_body a st =
     (case settled (fst a) of
        Fulfilled \<Rightarrow>
          if status (connection (fst a)) = Connected
          then st\<lparr>latencies := latencies st @ [fst (snd a)],
                  successCount := Suc (successCount st)\<rparr>
          else st\<lparr>failCount := Suc (failCount st)\<rparr>
      | Failed e \<Rightarrow> st\<lparr>failCount := Suc (failCount st)\<rparr>
      | Unsettled \<Rightarrow> st)"

text \<open>The time at which attempt \<open>i\<close> ends: a connected attempt holds its socket for
  \<open>holds i\<close> milliseconds (\<^verbatim>\<open>Math.random() * 1000\<close>) before it closes it.\<close>

definition attempt_end :: "(nat \<Rightarrow> real) \<Rightarrow> nat \<times> (connect_state \<times> real \<times> script) \<Rightarrow> real" where
  "attempt_end holds ia =
     (case ia of
        (i, a) \<Rightarrow>
          if settled (fst a) = Fulfilled \<and> status (connection (fst a)) = Connected
          then fst (snd a) + holds i else fst (snd a))"

text \<open>\<^verbatim>\<open>Array.from({ length: connectionCount }, ...)\<close> starts no attempt for a negative
  count, and throws a \<^verbatim>\<open>RangeError\<close> for a count above the largest array length,
  \<open>2\<^sup>3\<^sup>2 - 1\<close>, which rejects the promise of the operation. The count is taken as an
  integer. All attempts start together; each resumes when its connection settles, so the
  shared variables are updated in the order of these times. \<^verbatim>\<open>Promise.all\<close> waits for
  every attempt, and none of them rejects. The socket of attempt \<open>i\<close> behaves as
  \<open>behs i\<close>. The parameter \<^verbatim>\<open>duration\<close> is not read.\<close>

definition stressTestRelay ::
  "string \<Rightarrow> int \<Rightarrow> real \<Rightarrow> (nat \<Rightarrow> ws_behaviour) \<Rightarrow> (nat \<Rightarrow> real) \<Rightarrow>
     StressTestResult promise" where
  "stressTestRelay u connectionCount duration_arg behs holds =
     (if 4294967295 < connectionCount then Rejected (JsError ''Invalid array length'')
      else
        let attempts = map (\<lambda>i. connectToRelay u 5000 (behs i)) [0..<nat connectionCount] in
        if list_ex (\<lambda>a. settled (fst a) = Unsettled) attempts then Pending
        else
          let st = foldl (\<lambda>st a. attempt_body a st)
                     \<lparr>latencies = [], successCount = 0, failCount = 0\<rparr>
                     (sort_key (\<lambda>a. fst (snd a)) attempts)
          in
          Resolved
            \<lparr>st_url = u, totalConnections = connectionCount,
             successfulConnections = successCount st, failedConnections = failCount st,
             st_averageLatency = average (latencies st),
             duration = foldl max 0 (map (attempt_end holds) (enumerate 0 attempts))\<rparr>)"

subsection \<open>\<^verbatim>\<open>monitorRelay\<close>\<close>

datatype callback = OnLog RelayLog | OnStatusChange status

text \<open>What the event loop runs while a monitor is alive: an event of the socket, a firing
  of the 100 ms interval, or a call of the function that \<^verbatim>\<open>monitorRelay\<close> returned.\<close>

datatype monitor_event = Socket ws_event | Tick | Cancel

text \<open>The state the closures of \<^verbatim>\<open>monitorRelay\<close> share: the closures of
  \<^verbatim>\<open>connectToRelay\<close>, whether the variable \<^verbatim>\<open>connection\<close> is assigned, whether the
  interval \<^verbatim>\<open>checkLogs\<close> is registered, whether \<^verbatim>\<open>onclose\<close> and \<^verbatim>\<open>onerror\<close> of
  the socket have been replaced, and the calls of the two callbacks so far, with their
  times.\<close>

record monitor_state =
  connecting :: connect_state
  connection_assigned :: bool
  checkLogs :: bool
  replaced :: bool
  called :: "(real \<times> callback) list"

text \<open>The callback of \<^verbatim>\<open>then\<close>, lines 359-386. The function it returns is the value of
  a promise that nothing reads.\<close>

definition then_callback :: "real \<Rightarrow> monitor_state \<Rightarrow> monitor_state" where
  "then_callback now ms =
     (let ms1 = ms\<lparr>connection_assigned := True,
                   called := called ms @
                     [(now, OnStatusChange (status (connection (connecting ms))))],
                   checkLogs := True\<rparr>
      in if websocket (connection (connecting ms1)) \<noteq> None then ms1\<lparr>replaced := True\<rparr>
         else ms1)"

text \<open>The callback of \<^verbatim>\<open>catch\<close>, lines 387-394; \<^verbatim>\<open>error.message\<close> of a thrown value
  that is not an error object is taken as empty.\<close>

definition catch_callback :: "real \<Rightarrow> exn \<Rightarrow> monitor_state \<Rightarrow> monitor_state" where
  "catch_callback now e ms =
     ms\<lparr>called := called ms @
          [(now, OnStatusChange StatusError),
           (now, OnLog \<lparr>timestamp = now, log_type = LogError,
                        log_message = (case e of JsError m \<Rightarrow> m | NonError \<Rightarrow> []),
                        log_data = None\<rparr>)]\<rparr>"

text \<open>The callback of \<^verbatim>\<open>setInterval(..., 100)\<close>, lines 364-369.\<close>

definition check_logs :: "real \<Rightarrow> monitor_state \<Rightarrow> monitor_state" where
  "check_logs now ms =
     (if connection_assigned ms \<and> length (logs (connection (connecting ms))) > 0 then
        ms\<lparr>connecting :=
             (connecting ms)\<lparr>connection := (connection (connecting ms))\<lparr>logs := []\<rparr>\<rparr>,
           called := called ms @
             map (\<lambda>l. (now, OnLog l)) (logs (connection (connecting ms)))\<rparr>
      else ms)"

text \<open>The handlers that replace \<^verbatim>\<open>onclose\<close> and \<^verbatim>\<open>onerror\<close>, lines 373-380.\<close>

definition monitor_onclose :: "real \<Rightarrow> monitor_state \<Rightarrow> monitor_state" where
  "monitor_onclose now ms =
     ms\<lparr>called := called ms @ [(now, OnStatusChange Disconnected)], checkLogs := False\<rparr>"

definition monitor_onerror :: "real \<Rightarrow> monitor_state \<Rightarrow> monitor_state" where
  "monitor_onerror now ms = ms\<lparr>called := called ms @ [(now, OnStatusChange StatusError)]\<rparr>"

text \<open>The function that \<^verbatim>\<open>monitorRelay\<close> returns, lines 396-398:
  \<^verbatim>\<open>connection?.websocket?.close()\<close>.\<close>

definition cancel :: "monitor_state \<Rightarrow> monitor_state" where
  "cancel ms =
     (if connection_assigned ms
      then ms\<lparr>connecting :=
                (connecting ms)\<lparr>connection := close_socket (connection (connecting ms))\<rparr>\<rparr>
      else ms)"

text \<open>A change of the promise of \<^verbatim>\<open>connectToRelay\<close> runs the registered reaction.\<close>

definition react :: "real \<Rightarrow> settle \<Rightarrow> monitor_state \<Rightarrow> monitor_state" where
  "react now before ms =
     (if before = Unsettled then
        (case settled (connecting ms) of
           Unsettled \<Rightarrow> ms
         | Fulfilled \<Rightarrow> then_callback now ms
         | Failed e \<Rightarrow> catch_callback now e ms)
      else ms)"

definition with_socket_state :: "ws_event \<Rightarrow> monitor_state \<Rightarrow> monitor_state" where
  "with_socket_state ev ms =
     ms\<lparr>connecting :=
          (connecting ms)\<lparr>connection := set_ready ev (connection (connecting ms))\<rparr>\<rparr>"

fun monitor_step :: "real \<Rightarrow> monitor_event \<Rightarrow> monitor_state \<Rightarrow> monitor_state" where
  "monitor_step now (Socket WsError) ms =
     (if replaced ms then monitor_onerror now (with_socket_state WsError ms)
      else ms\<lparr>connecting := dispatch now WsError (connecting ms)\<rparr>)"
| "monitor_step now (Socket Close) ms =
     (if replaced ms then monitor_onclose now (with_socket_state Close ms)
      else ms\<lparr>connecting := dispatch now Close (connecting ms)\<rparr>)"
| "monitor_step now (Socket ev) ms =
     react now (settled (connecting ms))
       (ms\<lparr>connecting := dispatch now ev (connecting ms)\<rparr>)"
| "monitor_step now Tick ms = (if checkLogs ms then check_logs now ms else ms)"
| "monitor_step now Cancel ms = cancel ms"

text \<open>The timeout of \<^verbatim>\<open>connectToRelay\<close> (5000 ms by default) fires when it is due and
  still armed.\<close>

definition fire_timeout :: "monitor_state \<Rightarrow> monitor_state" where
  "fire_timeout ms =
     (if timeoutId (connecting ms)
      then react 5000 (settled (connecting ms))
             (ms\<lparr>connecting := timeout_callback 5000 (connecting ms)\<rparr>)
      else ms)"

fun monitor_run :: "monitor_state \<Rightarrow> (real \<times> monitor_event) list \<Rightarrow> monitor_state" where
  "monitor_run ms [] = fire_timeout ms"
| "monitor_run ms ((t, ev) # rest) =
     monitor_run (monitor_step t ev (if 5000 \<le> t then fire_timeout ms else ms)) rest"

text \<open>\<^verbatim>\<open>monitorRelay\<close> starts the connection and returns the cancel function at once;
  the result here is the state after the event loop has run the given events.\<close>

definition monitorRelay ::
  "string \<Rightarrow> exn option \<Rightarrow> (real \<times> monitor_event) list \<Rightarrow> monitor_state" where
  "monitorRelay u throws evs =
     monitor_run
       (react 0 Unsettled
          \<lparr>connecting =
             executor u (case throws of Some e \<Rightarrow> CtorThrows e | None \<Rightarrow> Events []),
           connection_assigned = False, checkLogs = False, replaced = False,
           called = []\<rparr>)
       evs"

section \<open>Notions the properties are stated with\<close>

text \<open>A connection as the success path hands it over.\<close>

definition handed_over :: "RelayConnection \<Rightarrow> bool" where
  "handed_over c =
     (status c = Connected \<and> is_open c \<and>
      (\<exists>l \<in> set (logs c). log_type l = Info \<and> log_message l = ''Connected to relay''))"

text \<open>The session of a connection is closed when there is no socket, or the socket is
  closing or closed: \<^verbatim>\<open>close()\<close> has been called on it, or the relay has closed it.\<close>

definition session_closed :: "RelayConnection \<Rightarrow> bool" where
  "session_closed c =
     (case websocket c of
        None \<Rightarrow> True
      | Some ws \<Rightarrow> readyState ws = CLOSING \<or> readyState ws = CLOSED)"

text \<open>An acknowledgement of the payload: a frame whose element 0 is \<^verbatim>\<open>'OK'\<close> and
  whose element 1 is the payload's id.\<close>

definition is_ack :: "SignedEvent \<Rightarrow> json \<Rightarrow> bool" where
  "is_ack event response =
     (get_index response 0 = Inr (JStr ''OK'') \<and>
      get_index response 1 = Inr (JStr (id_of event)))"

definition acks :: "SignedEvent \<Rightarrow> ws_event \<Rightarrow> bool" where
  "acks event ev =
     (case ev of Message (Some response) \<Rightarrow> is_ack event response | _ \<Rightarrow> False)"

text \<open>The first acknowledgement of the payload among the events that are dispatched
  before the deadline, with its time.\<close>

fun first_ack :: "real \<Rightarrow> SignedEvent \<Rightarrow> script \<Rightarrow> (real \<times> json) option" where
  "first_ack deadline event [] = None"
| "first_ack deadline event ((t, ev) # rest) =
     (if deadline \<le> t then None
      else
        (case ev of
           Message (Some response) \<Rightarrow>
             if is_ack event response then Some (t, response)
             else first_ack deadline event rest
         | _ \<Rightarrow> first_ack deadline event rest))"

text \<open>Some acknowledgement of the payload with a truthy flag is among the events before
  the deadline.\<close>

definition ack_arrives :: "real \<Rightarrow> SignedEvent \<Rightarrow> script \<Rightarrow> bool" where
  "ack_arrives deadline event evs =
     list_ex
       (\<lambda>(t, ev). t < deadline \<and>
          (case ev of
             Message (Some response) \<Rightarrow>
               is_ack event response \<and>
               (case get_index response 2 of Inr flag \<Rightarrow> truthy flag | Inl e \<Rightarrow> False)
           | _ \<Rightarrow> False))
       evs"

text \<open>A signed event to publish in the examples.\<close>

definition sample_event :: SignedEvent where
  "sample_event =
     \<lparr>id_of = ''abc'', pubkey = ''p'', created_at = 0, kind = 1, tags = [],
      content = ''hello'', sig = ''s''\<rparr>"

text \<open>Every slot of \<^verbatim>\<open>Promise.all\<close> is empty or holds the value of its own promise.\<close>

definition slots_ok :: "'a promise list \<Rightarrow> 'a option list \<Rightarrow> bool" where
  "slots_ok ps vals =
     (length vals = length ps \<and>
      (\<forall>j < length ps. vals ! j = None \<or> (\<exists>v. vals ! j = Some v \<and> ps ! j = Resolved v)))"

text \<open>The latencies of the pings \<open>i\<close> to \<open>n - 1\<close> that succeed, in the order of the
  pings.\<close>

definition ping_latencies :: "string \<Rightarrow> (nat \<Rightarrow> ws_behaviour) \<Rightarrow> nat \<Rightarrow> nat \<Rightarrow> real list" where
  "ping_latencies u pings i n =
     List.map_filter
       (\<lambda>j. case fst (pingRelay u (pings j)) of Resolved l \<Rightarrow> Some l | _ \<Rightarrow> None)
       [i..<n]"

text \<open>The metadata names a value for \<^verbatim>\<open>supported_nips\<close> that is truthy and has no
  method \<^verbatim>\<open>includes\<close>: neither an array nor a string.\<close>

definition includes_throws :: "json \<Rightarrow> bool" where
  "includes_throws v =
     (truthy v \<and> (case js_includes v 1 of Inl e \<Rightarrow> True | Inr b \<Rightarrow> False))"

text \<open>Environments of the examples: sockets on which nothing ever happens, sockets that
  open after 100 ms, attempts that close at once, and a batch whose first endpoint refuses
  the connection while the others acknowledge the sample event.\<close>

definition silent :: "nat \<Rightarrow> ws_behaviour" where
  "silent i = Events []"

definition accepting :: "nat \<Rightarrow> ws_behaviour" where
  "accepting i = Events [(100, Open)]"

definition no_hold :: "nat \<Rightarrow> real" where
  "no_hold i = 0"

definition refused_then_acked :: "nat \<Rightarrow> ws_behaviour" where
  "refused_then_acked i =
     (if i = 0 then Events [(50, WsError), (51, Close)]
      else Events
             [(100, Open),
              (200, Message (Some (JArr [JStr ''OK'', JStr ''abc'', JBool True,
                                         JStr ''stored''])))])"

text \<open>The connection attempt of an operation settles: its promise is fulfilled or
  rejected.\<close>

definition connection_settles :: "string \<Rightarrow> ws_behaviour \<Rightarrow> bool" where
  "connection_settles u b = (settled (fst (connectToRelay u 5000 b)) \<noteq> Unsettled)"

text \<open>The connection has a socket that has left the connecting state.\<close>

definition not_connecting :: "RelayConnection \<Rightarrow> bool" where
  "not_connecting c =
     (case websocket c of None \<Rightarrow> False | Some ws \<Rightarrow> readyState ws \<noteq> CONNECTING)"

text \<open>More environments of the examples: attempts of which the first is refused (the
  browser fires \<^verbatim>\<open>error\<close> and \<^verbatim>\<open>close\<close>) while the others open after 100 ms, a
  metadata request answered with status 404, and pings that all open.\<close>

definition refusing_first :: "nat \<Rightarrow> ws_behaviour" where
  "refusing_first i =
     (if i = 0 then Events [(50, WsError), (51, Close)] else Events [(100, Open)])"

definition no_metadata :: "nat \<Rightarrow> fetch_behaviour" where
  "no_metadata i = Response False 404 (Inr JNull)"

definition accepting_all :: "nat \<Rightarrow> nat \<Rightarrow> ws_behaviour" where
  "accepting_all i = accepting"

section \<open>Properties\<close>

subsection \<open>What a caller of \<^verbatim>\<open>connectToRelay\<close> is handed\<close>

lemmas handler_defs =
  dispatch_def set_ready_def onopen_def onerror_def onclose_def onmessage_def
  resolve_def reject_def push_log_def timeout_callback_def close_socket_def is_open_def
  ws_close_def ws_send_def

lemmas connect_defs = connectToRelay_def executor_def connection0_def connect_promise_def

lemma timeout_callback_not_fulfilled:
  "settled s = Unsettled \<Longrightarrow> settled (timeout_callback now s) \<noteq> Fulfilled"
  by (simp add: timeout_callback_def reject_def Let_def)

lemma timeout_callback_socket:
  "websocket (connection s) \<noteq> None \<Longrightarrow> websocket (connection (timeout_callback now s)) \<noteq> None"
  by (auto simp add: timeout_callback_def reject_def Let_def push_log_def close_socket_def)

lemma dispatch_socket:
  "websocket (connection s) \<noteq> None \<Longrightarrow> websocket (connection (dispatch now ev s)) \<noteq> None"
  by (cases ev)
    (auto simp add: dispatch_def set_ready_def onopen_def onerror_def onclose_def onmessage_def
      resolve_def push_log_def)

text \<open>Only \<^verbatim>\<open>onopen\<close> fulfils the promise, and it does so on an open socket, after it
  has set the status and written the log entry.\<close>

lemma dispatch_fulfilled:
  assumes "settled s = Unsettled" and "settled (dispatch now ev s) = Fulfilled"
    and "websocket (connection s) \<noteq> None"
  shows "handed_over (connection (dispatch now ev s)) \<and> \<not> timeoutId (dispatch now ev s)"
  using assms
  by (cases ev)
    (auto simp add: dispatch_def set_ready_def onopen_def onerror_def onclose_def onmessage_def
      resolve_def push_log_def handed_over_def is_open_def)

lemma connect_run_fulfilled:
  assumes "connect_run timeout s evs = (s', t, rest)"
    and "settled s = Unsettled" and "websocket (connection s) \<noteq> None"
    and "settled s' = Fulfilled"
  shows "handed_over (connection s') \<and> \<not> timeoutId s'"
  using assms
proof (induction evs arbitrary: s)
  case Nil
  then show ?case
    using timeout_callback_not_fulfilled [of s timeout]
    by (auto split: if_splits)
next
  case (Cons a evs)
  obtain t0 ev where a: "a = (t0, ev)" by (cases a)
  define s1 where "s1 = (if timeoutId s \<and> timeout \<le> t0 then timeout_callback timeout s else s)"
  have s1_nf: "settled s1 \<noteq> Fulfilled"
    using Cons.prems(2) timeout_callback_not_fulfilled [of s timeout]
    by (simp add: s1_def)
  have s1_ws: "websocket (connection s1) \<noteq> None"
    using Cons.prems(3) timeout_callback_socket [of s timeout] by (simp add: s1_def)
  show ?case
  proof (cases "settled s1 = Unsettled")
    case False
    then have "s' = s1" using Cons.prems(1) by (simp add: a s1_def [symmetric] Let_def)
    then show ?thesis using s1_nf Cons.prems(4) by simp
  next
    case True
    define s2 where "s2 = dispatch t0 ev s1"
    show ?thesis
    proof (cases "settled s2 = Unsettled")
      case False
      then have "s' = s2"
        using Cons.prems(1) True by (simp add: a s1_def [symmetric] s2_def [symmetric] Let_def)
      then show ?thesis
        using dispatch_fulfilled [of s1 t0 ev] True s1_ws Cons.prems(4) by (simp add: s2_def)
    next
      case u2: True
      then have "connect_run timeout s2 evs = (s', t, rest)"
        using Cons.prems(1) True by (simp add: a s1_def [symmetric] s2_def [symmetric] Let_def)
      moreover have "websocket (connection s2) \<noteq> None"
        using dispatch_socket [of s1 t0 ev] s1_ws by (simp add: s2_def)
      ultimately show ?thesis using Cons.IH [of s2] u2 Cons.prems(4) by simp
    qed
  qed
qed

lemma connectToRelay_fulfilled:
  assumes "connectToRelay u timeout b = (s', t, rest)" and "settled s' = Fulfilled"
  shows "handed_over (connection s') \<and> \<not> timeoutId s'"
proof (cases b)
  case (CtorThrows e)
  then show ?thesis using assms by (auto simp add: connectToRelay_def executor_def)
next
  case (Events evs)
  then show ?thesis
    using assms connect_run_fulfilled [of timeout _ evs s' t rest]
    by (simp add: connectToRelay_def executor_def connection0_def)
qed

text \<open>
  Claim C9. Whenever the promise of \<^verbatim>\<open>connectToRelay\<close> is fulfilled, the connection it
  hands to the caller has the status \<^verbatim>\<open>connected\<close>, a socket that is not null (and
  open), and a log that holds the info entry of the connection. No connection in another
  state is handed over on the success path.
\<close>

theorem connectToRelay_resolves_connected:
  assumes "connect_promise (connectToRelay u timeout b) = Resolved c"
  shows "status c = Connected \<and>
         (\<exists>ws. websocket c = Some ws \<and> readyState ws = OPEN) \<and>
         (\<exists>l \<in> set (logs c). log_type l = Info \<and> log_message l = ''Connected to relay'')"
proof -
  obtain s t rest where r: "connectToRelay u timeout b = (s, t, rest)"
    by (cases "connectToRelay u timeout b")
  from assms r have "settled s = Fulfilled" and c: "c = connection s"
    by (auto simp add: connect_promise_def split: settle.splits)
  with r have "handed_over c"
    using connectToRelay_fulfilled [of u timeout b s t rest] by simp
  then show ?thesis
    by (auto simp add: handed_over_def is_open_def split: option.splits)
qed

theorem connectToRelay_resolves_connected_witness:
  "connect_promise (connectToRelay ''wss://relay.example'' 5000 (Events [(120, Open)])) =
     Resolved
       \<lparr>url = ''wss://relay.example'',
        websocket = Some \<lparr>readyState = OPEN, calls = []\<rparr>,
        status = Connected, messageCount = 0, errorCount = 0, lastActivity = 120,
        logs = [\<lparr>timestamp = 120, log_type = Info, log_message = ''Connected to relay'',
                 log_data = None\<rparr>]\<rparr>
   \<and> status \<lparr>url = ''wss://relay.example'',
        websocket = Some \<lparr>readyState = OPEN, calls = []\<rparr>,
        status = Connected, messageCount = 0, errorCount = 0, lastActivity = 120,
        logs = [\<lparr>timestamp = 120, log_type = Info, log_message = ''Connected to relay'',
                 log_data = None\<rparr>]\<rparr> = Connected"
proof -
  have h: "connect_promise (connectToRelay ''wss://relay.example'' 5000 (Events [(120, Open)])) =
     Resolved
       \<lparr>url = ''wss://relay.example'',
        websocket = Some \<lparr>readyState = OPEN, calls = []\<rparr>,
        status = Connected, messageCount = 0, errorCount = 0, lastActivity = 120,
        logs = [\<lparr>timestamp = 120, log_type = Info, log_message = ''Connected to relay'',
                 log_data = None\<rparr>]\<rparr>"
    by (simp add: connect_defs handler_defs Let_def)
  from connectToRelay_resolves_connected [OF h] h show ?thesis by simp
qed

subsection \<open>\<^verbatim>\<open>healthCheckRelay\<close>\<close>

lemma close_socket_closed: "session_closed (close_socket c)"
  by (simp add: session_closed_def close_socket_def ws_close_def split: option.splits)

lemma dispatch_not_failed:
  "settled s = Unsettled \<Longrightarrow> settled (dispatch now ev s) \<noteq> Failed e"
  by (cases ev) (simp_all add: handler_defs)

text \<open>The timeout rejects only after it has closed the socket.\<close>

lemma timeout_callback_failed:
  "settled s = Unsettled \<Longrightarrow> settled (timeout_callback now s) = Failed e \<Longrightarrow>
     session_closed (connection (timeout_callback now s))"
  by (auto simp add: timeout_callback_def reject_def Let_def push_log_def close_socket_def
      session_closed_def ws_close_def split: if_splits option.splits)

lemma connect_run_failed:
  assumes "connect_run timeout s evs = (s', t, rest)"
    and "settled s = Unsettled" and "settled s' = Failed e"
  shows "session_closed (connection s')"
  using assms
proof (induction evs arbitrary: s)
  case Nil
  then show ?case
    using timeout_callback_failed [of s timeout e] by (auto split: if_splits)
next
  case (Cons a evs)
  obtain t0 ev where a: "a = (t0, ev)" by (cases a)
  define s1 where "s1 = (if timeoutId s \<and> timeout \<le> t0 then timeout_callback timeout s else s)"
  show ?case
  proof (cases "settled s1 = Unsettled")
    case False
    then have "s' = s1" using Cons.prems(1) by (simp add: a s1_def [symmetric] Let_def)
    then show ?thesis
      using False Cons.prems(2,3) timeout_callback_failed [of s timeout e]
      by (auto simp add: s1_def split: if_splits)
  next
    case True
    define s2 where "s2 = dispatch t0 ev s1"
    show ?thesis
    proof (cases "settled s2 = Unsettled")
      case False
      then have "s' = s2"
        using Cons.prems(1) True by (simp add: a s1_def [symmetric] s2_def [symmetric] Let_def)
      then show ?thesis
        using dispatch_not_failed [of s1 t0 ev e] True Cons.prems(3) by (simp add: s2_def)
    next
      case u2: True
      then have "connect_run timeout s2 evs = (s', t, rest)"
        using Cons.prems(1) True by (simp add: a s1_def [symmetric] s2_def [symmetric] Let_def)
      then show ?thesis using Cons.IH [of s2] u2 Cons.prems(3) by simp
    qed
  qed
qed

lemma connectToRelay_failed:
  assumes "connectToRelay u timeout b = (s', t, rest)" and "settled s' = Failed e"
  shows "session_closed (connection s')"
proof (cases b)
  case (CtorThrows e)
  then show ?thesis
    using assms by (auto simp add: connectToRelay_def executor_def session_closed_def
        push_log_def connection0_def)
next
  case (Events evs)
  then show ?thesis
    using assms connect_run_failed [of timeout _ evs s' t rest e]
    by (simp add: connectToRelay_def executor_def)
qed

text \<open>On an open socket the first \<^verbatim>\<open>send\<close> does not throw, so the read test leaves the
  error message and the health flag as they are, and it closes the socket.\<close>

lemma read_test_open:
  assumes "websocket (connection s) = Some ws" and "readyState ws = OPEN"
    and "fst (read_test tc s rest r0) = Resolved r"
  shows "errorMessage r = errorMessage r0 \<and> isHealthy r = isHealthy r0 \<and>
         session_closed (snd (read_test tc s rest r0))"
  using assms
  by (auto simp add: read_test_def ws_send_def Let_def close_socket_closed
      split: option.splits sum.splits if_splits)

lemma healthCheckRelay_returns:
  assumes "fst (healthCheckRelay u b) = Resolved r"
  shows "(errorMessage r \<noteq> None) = (\<not> isHealthy r) \<and>
         session_closed (snd (healthCheckRelay u b))"
proof -
  obtain s tc rest where c: "connectToRelay u 5000 b = (s, tc, rest)"
    by (cases "connectToRelay u 5000 b")
  show ?thesis
  proof (cases "settled s")
    case Unsettled
    then show ?thesis using assms c by (simp add: healthCheckRelay_def)
  next
    case (Failed e)
    then show ?thesis
      using assms c connectToRelay_failed [OF c Failed]
      by (auto simp add: healthCheckRelay_def)
  next
    case Fulfilled
    from connectToRelay_fulfilled [OF c Fulfilled]
    obtain ws where ws: "websocket (connection s) = Some ws" "readyState ws = OPEN"
      and st: "status (connection s) = Connected"
      by (auto simp add: handed_over_def is_open_def split: option.splits)
    let ?r0 = "\<lparr>hc_url = u, isHealthy = True, hc_latency = tc, supportsRead = False,
         supportsWrite = False, responseTime = tc, hc_timestamp = 0, errorMessage = None\<rparr>"
    have eq: "healthCheckRelay u b = read_test tc s rest ?r0"
      using c Fulfilled ws st by (simp add: healthCheckRelay_def)
    from read_test_open [OF ws, of tc rest ?r0 r] assms eq show ?thesis by simp
  qed
qed

text \<open>Every health check that returns has closed its session.\<close>

lemma healthCheckRelay_closes_session:
  "fst (healthCheckRelay u b) = Resolved r \<Longrightarrow> session_closed (snd (healthCheckRelay u b))"
  using healthCheckRelay_returns by blast

text \<open>Every result that \<^verbatim>\<open>healthCheckRelay\<close> returns has its \<^verbatim>\<open>errorMessage\<close> set
  if and only if \<^verbatim>\<open>isHealthy\<close> is false.\<close>

lemma healthCheckRelay_error_iff_unhealthy:
  assumes "fst (healthCheckRelay u b) = Resolved r"
  shows "(errorMessage r \<noteq> None) = (\<not> isHealthy r)"
  using healthCheckRelay_returns [OF assms] by simp

text \<open>No event takes a socket back to the connecting state, so the second \<^verbatim>\<open>send\<close> of
  the read test does not throw either.\<close>

lemma dispatch_not_connecting:
  "not_connecting (connection s) \<Longrightarrow> not_connecting (connection (dispatch now ev s))"
  by (cases ev)
    (auto simp add: not_connecting_def handler_defs split: option.splits)

lemma run_until_not_connecting:
  "not_connecting (connection s) \<Longrightarrow> not_connecting (connection (run_until deadline s evs))"
proof (induction evs arbitrary: s)
  case Nil
  then show ?case by simp
next
  case (Cons a evs)
  obtain t ev where a: "a = (t, ev)" by (cases a)
  from Cons show ?case by (simp add: a dispatch_not_connecting)
qed

lemma read_test_returns:
  assumes "websocket (connection s) = Some ws" and "readyState ws = OPEN"
  shows "\<exists>r. fst (read_test tc s rest r0) = Resolved r"
proof -
  let ?ws1 = "ws\<lparr>calls := calls ws @ [Send (REQ (''health_check_'' @ decimal (nat \<lfloor>tc\<rfloor>)))]\<rparr>"
  have "not_connecting (connection (set_socket ?ws1 s))"
    using assms by (simp add: not_connecting_def set_socket_def)
  from run_until_not_connecting [OF this, of "tc + 1000" rest]
  obtain ws2 where
    ws2: "websocket (connection (run_until (tc + 1000) (set_socket ?ws1 s) rest)) = Some ws2"
    "readyState ws2 \<noteq> CONNECTING"
    by (auto simp add: not_connecting_def split: option.splits)
  then show ?thesis
    using assms by (simp add: read_test_def ws_send_def Let_def)
qed

text \<open>Whenever the connection attempt settles, \<^verbatim>\<open>healthCheckRelay\<close> returns a result,
  with the error message set exactly when the endpoint is not healthy, and with its
  session closed.\<close>

lemma healthCheckRelay_total:
  assumes "connection_settles u b"
  shows "\<exists>r. fst (healthCheckRelay u b) = Resolved r \<and>
           (errorMessage r \<noteq> None) = (\<not> isHealthy r) \<and>
           session_closed (snd (healthCheckRelay u b))"
proof -
  obtain s tc rest where c: "connectToRelay u 5000 b = (s, tc, rest)"
    by (cases "connectToRelay u 5000 b")
  have "\<exists>r. fst (healthCheckRelay u b) = Resolved r"
  proof (cases "settled s")
    case Unsettled
    then show ?thesis using assms c by (simp add: connection_settles_def)
  next
    case (Failed e)
    then show ?thesis using c by (simp add: healthCheckRelay_def)
  next
    case Fulfilled
    from connectToRelay_fulfilled [OF c Fulfilled]
    obtain ws where ws: "websocket (connection s) = Some ws" "readyState ws = OPEN"
      and st: "status (connection s) = Connected"
      by (auto simp add: handed_over_def is_open_def split: option.splits)
    from read_test_returns [OF ws] show ?thesis
      using c Fulfilled ws st by (simp add: healthCheckRelay_def)
  qed
  then obtain r where r: "fst (healthCheckRelay u b) = Resolved r" ..
  from healthCheckRelay_returns [OF r] r show ?thesis by blast
qed

text \<open>
  Claim C4, at the input where the code departs from it: the endpoint refuses the
  connection, so the browser fires \<^verbatim>\<open>error\<close> and \<^verbatim>\<open>close\<close> on the socket before it
  opens. \<^verbatim>\<open>onerror\<close> clears the timeout and leaves the promise pending, and
  \<^verbatim>\<open>healthCheckRelay\<close> never returns: there is no result, where the claim expects one
  with \<^verbatim>\<open>isHealthy\<close> false and \<^verbatim>\<open>errorMessage\<close> set.
\<close>

theorem healthCheckRelay_never_returns_when_refused:
  "healthCheckRelay ''wss://refusing.example'' (Events [(50, WsError), (51, Close)]) =
     (Pending,
      \<lparr>url = ''wss://refusing.example'',
       websocket = Some \<lparr>readyState = CLOSED, calls = []\<rparr>,
       status = Disconnected, messageCount = 0, errorCount = 1, lastActivity = 0,
       logs = [\<lparr>timestamp = 50, log_type = LogError, log_message = ''WebSocket error'',
                log_data = Some ErrorEvent\<rparr>,
               \<lparr>timestamp = 51, log_type = Info, log_message = ''Connection closed'',
                log_data = None\<rparr>]\<rparr>)"
  by (simp add: healthCheckRelay_def connect_defs handler_defs Let_def)

subsection \<open>\<^verbatim>\<open>publishEventToRelay\<close>\<close>

lemmas publish_defs =
  publishEventToRelay_def publish_exchange_def publish_dispatch_def messageHandler_def
  publish_timeout_def publish_failed_def set_socket_def

text \<open>
  Claim C1, at the input where the code departs from it: the relay accepts the connection
  and never acknowledges. The operation returns at the publish timeout, and the socket it
  opened is still open: the only call made on it is the \<^verbatim>\<open>send\<close> of the event.
\<close>

theorem publish_timeout_leaves_socket_open:
  "publishEventToRelay ''wss://relay.example'' sample_event (Events [(100, Open)]) =
     (Resolved
        \<lparr>relay = ''wss://relay.example'', success = JBool False, eventId = ''abc'',
         message = JStr ''Publish timeout'', pr_timestamp = 0, latency = 10100\<rparr>,
      \<lparr>url = ''wss://relay.example'',
       websocket = Some \<lparr>readyState = OPEN, calls = [Send (EVENT sample_event)]\<rparr>,
       status = Connected, messageCount = 0, errorCount = 0, lastActivity = 100,
       logs = [\<lparr>timestamp = 100, log_type = Info, log_message = ''Connected to relay'',
                log_data = None\<rparr>]\<rparr>) \<and>
   \<not> session_closed
       (snd (publishEventToRelay ''wss://relay.example'' sample_event (Events [(100, Open)])))"
  by (simp add: publish_defs connect_defs handler_defs sample_event_def session_closed_def
      Let_def)

text \<open>An index into a value throws for every index or for none.\<close>

lemma get_index_total:
  "get_index response i = Inr x \<Longrightarrow> \<exists>y. get_index response j = Inr y"
  by (cases response) simp_all

lemma messageHandler_ack:
  assumes "is_ack event response" and "publish_settled ps = Unsettled"
  shows "\<exists>flag. get_index response 2 = Inr flag \<and>
           publish_settled (messageHandler now event (Some response) ps) = Fulfilled \<and>
           success (result (messageHandler now event (Some response) ps)) = flag \<and>
           latency (result (messageHandler now event (Some response) ps)) = now \<and>
           conn_state (messageHandler now event (Some response) ps) = conn_state ps"
proof -
  from assms(1) have r0: "get_index response 0 = Inr (JStr ''OK'')"
    and r1: "get_index response 1 = Inr (JStr (id_of event))"
    by (simp_all add: is_ack_def)
  from get_index_total [OF r0, of 2] obtain flag where r2: "get_index response 2 = Inr flag" ..
  from get_index_total [OF r0, of 3] obtain m where r3: "get_index response 3 = Inr m" ..
  show ?thesis
    using r0 r1 r2 r3 assms(2) by (simp add: messageHandler_def)
qed

lemma messageHandler_other:
  "\<not> is_ack event response \<Longrightarrow> messageHandler now event (Some response) ps = ps"
  by (auto simp add: messageHandler_def is_ack_def split: sum.splits)

lemma messageHandler_unparsed: "messageHandler now event None ps = ps"
  by (simp add: messageHandler_def)

text \<open>An event that is no acknowledgement of the payload changes the connection only.\<close>

lemma publish_dispatch_other:
  assumes "\<not> acks event ev"
  shows "result (publish_dispatch now event ev ps) = result ps \<and>
         listening (publish_dispatch now event ev ps) = listening ps \<and>
         publish_settled (publish_dispatch now event ev ps) = publish_settled ps"
proof (cases ev)
  case (Message d)
  then show ?thesis
    using assms messageHandler_other [of event _ now] messageHandler_unparsed [of now event]
    by (cases d) (auto simp add: publish_dispatch_def acks_def Let_def)
qed (simp_all add: publish_dispatch_def)

lemma publish_dispatch_ack:
  assumes "is_ack event response" and "publish_settled ps = Unsettled" and "listening ps"
  shows "\<exists>flag. get_index response 2 = Inr flag \<and>
           publish_settled (publish_dispatch now event (Message (Some response)) ps) = Fulfilled \<and>
           success (result (publish_dispatch now event (Message (Some response)) ps)) = flag \<and>
           latency (result (publish_dispatch now event (Message (Some response)) ps)) = now"
  using messageHandler_ack [OF assms(1),
      of "ps\<lparr>conn_state := dispatch now (Message (Some response)) (conn_state ps)\<rparr>" now]
    assms(2,3)
  by (simp add: publish_dispatch_def Let_def)

text \<open>The wait ends at the first acknowledgement before the deadline, with its flag and
  its time, and otherwise at the deadline with the result untouched.\<close>

lemma publish_wait_decides:
  assumes "publish_settled ps = Unsettled" and "listening ps"
    and "publish_wait deadline event ps rest = (ps', t')"
  shows "(case first_ack deadline event rest of
            Some (t, response) \<Rightarrow>
              publish_settled ps' = Fulfilled \<and> t' = t \<and>
              get_index response 2 = Inr (success (result ps')) \<and> latency (result ps') = t
          | None \<Rightarrow>
              publish_settled ps' = Failed (JsError ''Publish timeout'') \<and> t' = deadline \<and>
              result ps' = result ps)"
  using assms
proof (induction rest arbitrary: ps)
  case Nil
  then show ?case by (auto simp add: publish_timeout_def)
next
  case (Cons a rest)
  obtain t0 ev where a: "a = (t0, ev)" by (cases a)
  show ?case
  proof (cases "deadline \<le> t0")
    case True
    then show ?thesis using Cons.prems by (auto simp add: a publish_timeout_def)
  next
    case late: False
    show ?thesis
    proof (cases "acks event ev")
      case True
      then obtain response where ev: "ev = Message (Some response)" and ack: "is_ack event response"
        by (auto simp add: acks_def split: ws_event.splits option.splits)
      from publish_dispatch_ack [OF ack Cons.prems(1,2), of t0] Cons.prems(3) late ack
      show ?thesis by (auto simp add: a ev Let_def)
    next
      case False
      define ps1 where "ps1 = publish_dispatch t0 event ev ps"
      from publish_dispatch_other [OF False, of t0 ps]
      have keep: "result ps1 = result ps" "listening ps1" "publish_settled ps1 = Unsettled"
        using Cons.prems(1,2) by (simp_all add: ps1_def)
      have "publish_wait deadline event ps1 rest = (ps', t')"
        using Cons.prems(3) late keep by (simp add: a ps1_def [symmetric] Let_def)
      from Cons.IH [OF keep(3) keep(2) this]
      have "(case first_ack deadline event rest of
            Some (t, response) \<Rightarrow>
              publish_settled ps' = Fulfilled \<and> t' = t \<and>
              get_index response 2 = Inr (success (result ps')) \<and> latency (result ps') = t
          | None \<Rightarrow>
              publish_settled ps' = Failed (JsError ''Publish timeout'') \<and> t' = deadline \<and>
              result ps' = result ps)"
        by (auto simp add: keep(1) split: option.splits)
      moreover have "first_ack deadline event (a # rest) = first_ack deadline event rest"
        using late False by (auto simp add: a acks_def split: ws_event.splits option.splits)
      ultimately show ?thesis by simp
    qed
  qed
qed

lemma publish_exchange_decides:
  assumes "websocket (connection s) = Some ws" and "readyState ws = OPEN"
  shows "\<exists>r. fst (publish_exchange tc s rest event r0) = Resolved r \<and>
           (case first_ack (tc + 10000) event rest of
              Some (t, response) \<Rightarrow>
                get_index response 2 = Inr (success r) \<and> latency r = t
            | None \<Rightarrow> success r = success r0 \<and> latency r = tc + 10000 \<and>
                message r = JStr ''Publish timeout'')"
proof -
  let ?ps = "\<lparr>conn_state = set_socket (ws\<lparr>calls := calls ws @ [Send (EVENT event)]\<rparr>) s,
              result = r0, listening = True, publish_settled = Unsettled\<rparr>"
  obtain ps' t' where w: "publish_wait (tc + 10000) event ?ps rest = (ps', t')"
    by (cases "publish_wait (tc + 10000) event ?ps rest")
  have d: "(case first_ack (tc + 10000) event rest of
            Some (t, response) \<Rightarrow>
              publish_settled ps' = Fulfilled \<and> t' = t \<and>
              get_index response 2 = Inr (success (result ps')) \<and> latency (result ps') = t
          | None \<Rightarrow>
              publish_settled ps' = Failed (JsError ''Publish timeout'') \<and> t' = tc + 10000 \<and>
              result ps' = result ?ps)"
    by (rule publish_wait_decides [OF _ _ w]) simp_all
  show ?thesis
  proof (cases "first_ack (tc + 10000) event rest")
    case None
    then show ?thesis
      using d w assms by (simp add: publish_exchange_def ws_send_def publish_failed_def)
  next
    case (Some a)
    then show ?thesis
      using d w assms by (cases a) (simp add: publish_exchange_def ws_send_def)
  qed
qed

text \<open>Whenever the connection attempt settles, \<^verbatim>\<open>publishEventToRelay\<close> returns a
  result.\<close>

lemma publishEventToRelay_total:
  assumes "connection_settles u b"
  shows "\<exists>r. fst (publishEventToRelay u event b) = Resolved r"
proof -
  obtain s tc rest where c: "connectToRelay u 5000 b = (s, tc, rest)"
    by (cases "connectToRelay u 5000 b")
  show ?thesis
  proof (cases "settled s")
    case Unsettled
    then show ?thesis using assms c by (simp add: connection_settles_def)
  next
    case (Failed e)
    then show ?thesis using c by (simp add: publishEventToRelay_def)
  next
    case Fulfilled
    from connectToRelay_fulfilled [OF c Fulfilled]
    obtain ws where ws: "websocket (connection s) = Some ws" "readyState ws = OPEN"
      and st: "status (connection s) = Connected"
      by (auto simp add: handed_over_def is_open_def split: option.splits)
    from publish_exchange_decides [OF ws, of tc rest event]
    show ?thesis using c Fulfilled ws st by (auto simp add: publishEventToRelay_def)
  qed
qed

text \<open>
  Claim C2, as amended. Whenever the connection attempt settles, \<^verbatim>\<open>publishEventToRelay\<close>
  returns a result. If the connection was opened at time \<open>tc\<close>, the deadline is
  \<open>tc + 10000\<close>, and the first acknowledgement of the payload that is dispatched before
  the deadline decides: \<^verbatim>\<open>success\<close> is its flag as received (so it is truthy exactly
  when that flag is) and \<^verbatim>\<open>latency\<close> is its time; later frames are not read. With no
  acknowledgement before the deadline \<^verbatim>\<open>success\<close> is false and \<^verbatim>\<open>latency\<close> is the
  time of the deadline; when the connection attempt is rejected \<^verbatim>\<open>success\<close> is false
  and \<^verbatim>\<open>latency\<close> is the time of the rejection.
\<close>

theorem publish_first_ack_decides:
  assumes "connectToRelay u 5000 b = (s, tc, rest)" and "settled s \<noteq> Unsettled"
  shows "\<exists>r. fst (publishEventToRelay u event b) = Resolved r \<and>
           (if settled s = Fulfilled then
              (case first_ack (tc + 10000) event rest of
                 Some (t, response) \<Rightarrow>
                   get_index response 2 = Inr (success r) \<and> latency r = t
               | None \<Rightarrow> success r = JBool False \<and> latency r = tc + 10000)
            else success r = JBool False \<and> latency r = tc)"
proof (cases "settled s")
  case Unsettled
  then show ?thesis using assms(2) by simp
next
  case (Failed e)
  then show ?thesis
    using assms(1) by (simp add: publishEventToRelay_def publish_failed_def)
next
  case Fulfilled
  from connectToRelay_fulfilled [OF assms(1) Fulfilled]
  obtain ws where ws: "websocket (connection s) = Some ws" "readyState ws = OPEN"
    and st: "status (connection s) = Connected"
    by (auto simp add: handed_over_def is_open_def split: option.splits)
  let ?r0 = "\<lparr>relay = u, success = JBool False, eventId = id_of event,
               message = JUndefined, pr_timestamp = 0, latency = 0\<rparr>"
  have eq: "publishEventToRelay u event b = publish_exchange tc s rest event ?r0"
    using assms(1) Fulfilled ws st by (simp add: publishEventToRelay_def)
  from publish_exchange_decides [OF ws, of tc rest event ?r0]
  show ?thesis using Fulfilled by (auto simp add: eq split: option.splits)
qed

theorem publish_first_ack_decides_witness:
  "fst (publishEventToRelay ''wss://relay.example'' sample_event
     (Events
       [(100, Open),
        (200, Message (Some (JArr [JStr ''OK'', JStr ''xyz'', JBool True]))),
        (300, Message (Some (JArr [JStr ''OK'', JStr ''abc'', JBool True, JStr ''stored''])))])) =
     Resolved
        \<lparr>relay = ''wss://relay.example'', success = JBool True, eventId = ''abc'',
         message = JStr ''stored'', pr_timestamp = 0, latency = 300\<rparr>"
proof -
  let ?rest = "[(200, Message (Some (JArr [JStr ''OK'', JStr ''xyz'', JBool True]))),
        (300, Message (Some (JArr [JStr ''OK'', JStr ''abc'', JBool True, JStr ''stored''])))]"
  let ?s = "\<lparr>connection =
       \<lparr>url = ''wss://relay.example'',
        websocket = Some \<lparr>readyState = OPEN, calls = []\<rparr>,
        status = Connected, messageCount = 0, errorCount = 0, lastActivity = 100,
        logs = [\<lparr>timestamp = 100, log_type = Info, log_message = ''Connected to relay'',
                 log_data = None\<rparr>]\<rparr>, timeoutId = False, settled = Fulfilled\<rparr>"
  have c: "connectToRelay ''wss://relay.example'' 5000 (Events ((100, Open) # ?rest)) =
             (?s, 100, ?rest)"
    by (simp add: connect_defs handler_defs Let_def)
  have n: "settled ?s \<noteq> Unsettled" by simp
  have f: "first_ack (100 + 10000) sample_event ?rest =
             Some (300, JArr [JStr ''OK'', JStr ''abc'', JBool True, JStr ''stored''])"
    by (simp add: is_ack_def sample_event_def)
  from publish_first_ack_decides [OF c n, of sample_event] f
  obtain r where r: "fst (publishEventToRelay ''wss://relay.example'' sample_event
       (Events ((100, Open) # ?rest))) = Resolved r" "success r = JBool True" "latency r = 300"
    by auto
  have "fst (publishEventToRelay ''wss://relay.example'' sample_event
       (Events ((100, Open) # ?rest))) = Resolved
        \<lparr>relay = ''wss://relay.example'', success = JBool True, eventId = ''abc'',
         message = JStr ''stored'', pr_timestamp = 0, latency = 300\<rparr>"
    by (simp add: publish_defs connect_defs handler_defs sample_event_def Let_def)
  with r show ?thesis by simp
qed

text \<open>
  Claim C2 as it is stated fails where two acknowledgements of the payload arrive: one
  with the flag true arrives before the deadline, and still \<^verbatim>\<open>success\<close> is false,
  because the earlier acknowledgement, with the flag false, has decided.
\<close>

theorem publish_later_ack_ignored:
  "ack_arrives (100 + 10000) sample_event
     [(200, Message (Some (JArr [JStr ''OK'', JStr ''abc'', JBool False, JStr ''blocked'']))),
      (300, Message (Some (JArr [JStr ''OK'', JStr ''abc'', JBool True, JStr ''saved''])))] \<and>
   fst (publishEventToRelay ''wss://relay.example'' sample_event
     (Events
       [(100, Open),
        (200, Message (Some (JArr [JStr ''OK'', JStr ''abc'', JBool False, JStr ''blocked'']))),
        (300, Message (Some (JArr [JStr ''OK'', JStr ''abc'', JBool True, JStr ''saved''])))])) =
     Resolved
        \<lparr>relay = ''wss://relay.example'', success = JBool False, eventId = ''abc'',
         message = JStr ''blocked'', pr_timestamp = 0, latency = 200\<rparr>"
  by (simp add: publish_defs connect_defs handler_defs ack_arrives_def is_ack_def
      sample_event_def Let_def)

subsection \<open>No operation but \<^verbatim>\<open>pingRelay\<close> and \<^verbatim>\<open>stressTestRelay\<close> rejects\<close>

lemma healthCheckRelay_not_rejected: "fst (healthCheckRelay u b) \<noteq> Rejected e"
  by (auto simp add: healthCheckRelay_def read_test_def Let_def
      split: prod.splits settle.splits option.splits sum.splits)

lemma publish_exchange_not_rejected: "fst (publish_exchange tc s rest event r) \<noteq> Rejected e"
  by (auto simp add: publish_exchange_def split: prod.splits settle.splits option.splits sum.splits)

lemma publishEventToRelay_not_rejected: "fst (publishEventToRelay u event b) \<noteq> Rejected e"
  by (auto simp add: publishEventToRelay_def publish_exchange_not_rejected Let_def
      split: prod.splits settle.splits)

lemma getRelayInfo_not_rejected: "getRelayInfo u f \<noteq> Rejected e"
  by (auto simp add: getRelayInfo_def Let_def split: fetch_behaviour.splits sum.splits)

lemma testRelayCompliance_not_rejected: "testRelayCompliance u f pings \<noteq> Rejected e"
  by (auto simp add: testRelayCompliance_def Let_def
      split: promise.splits prod.splits sum.splits option.splits)

lemma stressTestRelay_not_rejected:
  "n \<le> 4294967295 \<Longrightarrow> stressTestRelay u n d behs holds \<noteq> Rejected e"
  by (simp add: stressTestRelay_def Let_def)

text \<open>\<^verbatim>\<open>Promise.all\<close> rejects only with the rejection of one of its promises.\<close>

lemma all_settle_rejected:
  "all_settle ps order vals = Rejected e \<Longrightarrow> \<exists>i < length ps. ps ! i = Rejected e"
proof (induction order arbitrary: vals)
  case Nil
  then show ?case by simp
next
  case (Cons i order)
  then show ?case
    by (auto split: if_splits promise.splits option.splits)
qed

lemma promise_all_rejected:
  "promise_all order ps = Rejected e \<Longrightarrow> Rejected e \<in> set ps"
  using all_settle_rejected [of ps order "replicate (length ps) None" e]
  by (auto simp add: promise_all_def in_set_conv_nth split: if_splits)

lemma batchPublishToRelays_not_rejected:
  "batchPublishToRelays order urls event behs \<noteq> Rejected e"
proof
  assume "batchPublishToRelays order urls event behs = Rejected e"
  then have "Rejected e \<in>
      set (map (\<lambda>(i, u). fst (publishEventToRelay u event (behs i))) (enumerate 0 urls))"
    unfolding batchPublishToRelays_def by (rule promise_all_rejected)
  then obtain i u where "Rejected e = fst (publishEventToRelay u event (behs i))" by auto
  then show False using publishEventToRelay_not_rejected [of u event "behs i" e] by simp
qed

lemma compareRelays_not_rejected:
  "compareRelays order urls fs pingss \<noteq> Rejected e"
proof
  assume "compareRelays order urls fs pingss = Rejected e"
  then have "Rejected e \<in>
      set (map (\<lambda>(i, u). testRelayCompliance u (fs i) (pingss i)) (enumerate 0 urls))"
    unfolding compareRelays_def by (rule promise_all_rejected)
  then obtain i u where "Rejected e = testRelayCompliance u (fs i) (pingss i)" by auto
  then show False using testRelayCompliance_not_rejected [of u "fs i" "pingss i" e] by simp
qed

lemma pingRelay_rejected:
  "fst (pingRelay u b) = Rejected e \<Longrightarrow> \<exists>m. e = JsError (''Ping failed: '' @ m)"
  by (auto simp add: pingRelay_def split: prod.splits settle.splits if_splits)

subsection \<open>\<^verbatim>\<open>testRelayCompliance\<close>\<close>

lemma foldl_plus: "foldl (+) (a::real) xs = a + sum_list xs"
  by (induction xs arbitrary: a) simp_all

text \<open>The guarded mean is a number: the mean of a list that is not empty, and zero.\<close>

lemma average_Num:
  "average xs = (if xs = [] then Num 0 else Num (sum_list xs / real (length xs)))"
  by (simp add: average_def js_div_def foldl_plus)

lemma ping_latencies_step:
  "i < n \<Longrightarrow> ping_latencies u pings i n =
     (case fst (pingRelay u (pings i)) of Resolved l \<Rightarrow> [l] | _ \<Rightarrow> []) @
     ping_latencies u pings (Suc i) n"
  by (simp add: ping_latencies_def upt_conv_Cons split: promise.splits)

lemma ping_latencies_done: "\<not> i < n \<Longrightarrow> ping_latencies u pings i n = []"
  by (simp add: ping_latencies_def)

text \<open>A loop that comes back has run every ping from \<open>i\<close> on, has collected the latency
  of each that succeeded, and has counted them.\<close>

lemma ping_loop_result:
  "ping_loop u pings n i lat sc = Some (lat', sc') \<Longrightarrow>
     lat' = lat @ ping_latencies u pings i n \<and>
     sc' = sc + length (ping_latencies u pings i n)"
proof (induction u pings n i lat sc rule: ping_loop.induct)
  case (1 u pings testCount i latencies successCount)
  show ?case
  proof (cases "i < testCount")
    case False
    then show ?thesis
      using "1.prems" by (simp add: ping_loop.simps [of u pings testCount i] ping_latencies_done)
  next
    case True
    show ?thesis
    proof (cases "fst (pingRelay u (pings i))")
      case Pending
      then show ?thesis
        using "1.prems" True by (simp add: ping_loop.simps [of u pings testCount i])
    next
      case (Resolved l)
      then show ?thesis
        using "1.prems" True "1.IH"(1) [OF True Resolved]
        by (simp add: ping_loop.simps [of u pings testCount i] ping_latencies_step)
    next
      case (Rejected e)
      then show ?thesis
        using "1.prems" True "1.IH"(2) [OF True Rejected]
        by (simp add: ping_loop.simps [of u pings testCount i] ping_latencies_step)
    qed
  qed
qed

lemma ping_latencies_length: "length (ping_latencies u pings i n) \<le> n - i"
  using length_filter_le [of _ "[i..<n]"]
  by (simp add: ping_latencies_def map_filter_def)

lemma js_includes_throws_all:
  "js_includes v n = Inl e \<Longrightarrow> \<exists>e'. js_includes v m = Inl e'"
  by (cases v) simp_all

lemma capability_flags_throws:
  "includes_throws (supported_nips info) \<Longrightarrow> \<exists>e. capability_flags info r = (Inl e, r)"
  by (auto simp add: includes_throws_def capability_flags_def split: sum.splits)

lemma capability_flags_returns:
  assumes "\<not> includes_throws (supported_nips info)"
  shows "\<exists>r1. capability_flags info r = (Inr (), r1) \<and> tested r1 = tested r \<and>
           successRate r1 = successRate r \<and> averageLatency r1 = averageLatency r"
proof (cases "truthy (supported_nips info)")
  case False
  then show ?thesis by (simp add: capability_flags_def)
next
  case True
  with assms obtain b1 where b1: "js_includes (supported_nips info) 1 = Inr b1"
    by (auto simp add: includes_throws_def split: sum.splits)
  have "\<exists>b. js_includes (supported_nips info) m = Inr b" for m
    using b1 js_includes_throws_all [of "supported_nips info" m _ 1]
    by (cases "js_includes (supported_nips info) m") auto
  then obtain b42 b45 where "js_includes (supported_nips info) 42 = Inr b42"
    "js_includes (supported_nips info) 45 = Inr b45" by metis
  with b1 True show ?thesis by (simp add: capability_flags_def)
qed

lemma testRelayCompliance_returns:
  assumes "testRelayCompliance u f pings = Resolved r"
  shows "\<exists>info. getRelayInfo u f = Resolved info \<and>
           (if includes_throws (supported_nips info) then
              tested r = 0 \<and> successRate r = Num 0 \<and> averageLatency r = Num 0
            else
              tested r = 3 \<and>
              successRate r = Num (real (length (ping_latencies u pings 0 3)) / 3) \<and>
              length (ping_latencies u pings 0 3) \<le> 3 \<and>
              averageLatency r = average (ping_latencies u pings 0 3))"
proof -
  let ?r0 = "\<lparr>tr_url = u, nip01Compliant = False, supportsAuth = False,
               supportsCount = False, averageLatency = Num 0, successRate = Num 0,
               tested = 0\<rparr>"
  from assms obtain info where info: "getRelayInfo u f = Resolved info"
    using getRelayInfo_not_rejected [of u f]
    by (cases "getRelayInfo u f") (auto simp add: testRelayCompliance_def)
  show ?thesis
  proof (cases "includes_throws (supported_nips info)")
    case True
    from capability_flags_throws [OF True, of ?r0] obtain e where
      "capability_flags info ?r0 = (Inl e, ?r0)" ..
    with assms info True show ?thesis by (auto simp add: testRelayCompliance_def)
  next
    case False
    from capability_flags_returns [OF False, of ?r0] obtain r1 where
      r1: "capability_flags info ?r0 = (Inr (), r1)" "tested r1 = 0"
        "successRate r1 = Num 0" "averageLatency r1 = Num 0" by auto
    from assms info r1(1) obtain lat sc where
      loop: "ping_loop u pings 3 0 [] 0 = Some (lat, sc)"
      and r: "r = r1\<lparr>tested := 3, successRate := js_div (real sc) (real (3::nat)),
                     averageLatency := average lat\<rparr>"
      by (auto simp add: testRelayCompliance_def Let_def split: option.splits)
    from ping_loop_result [OF loop] have lat: "lat = ping_latencies u pings 0 3"
      and sc: "sc = length (ping_latencies u pings 0 3)" by simp_all
    have "length (ping_latencies u pings 0 3) \<le> 3"
      using ping_latencies_length [of u pings 0 3] by simp
    then show ?thesis
      using info False r lat sc by (simp add: js_div_def)
  qed
qed

lemmas compliance_defs =
  testRelayCompliance_def getRelayInfo_def info_failed_def capability_flags_def
  ping_loop.simps pingRelay_def average_def js_div_def

text \<open>Every result of \<^verbatim>\<open>testRelayCompliance\<close> comes after three pings, with
  \<^verbatim>\<open>tested\<close> equal to 3, \<^verbatim>\<open>successRate\<close> the number of successful pings divided by
  3 and \<^verbatim>\<open>averageLatency\<close> the mean of the successful latencies, or 0 when there is
  none, unless reading the capability list of the metadata throws: then no ping is run and
  the three fields stay at 0. Quotient and mean are those of the real numbers here; the
  code has the doubles nearest to them.\<close>

lemma testRelayCompliance_three_pings:
  assumes "testRelayCompliance u f pings = Resolved r"
  shows "\<exists>info. getRelayInfo u f = Resolved info \<and>
           (if includes_throws (supported_nips info) then
              tested r = 0 \<and> successRate r = Num 0 \<and> averageLatency r = Num 0
            else
              tested r = 3 \<and>
              successRate r = Num (real (length (ping_latencies u pings 0 3)) / 3) \<and>
              0 \<le> real (length (ping_latencies u pings 0 3)) / 3 \<and>
              real (length (ping_latencies u pings 0 3)) / 3 \<le> 1 \<and>
              averageLatency r =
                (if ping_latencies u pings 0 3 = [] then Num 0
                 else Num (sum_list (ping_latencies u pings 0 3) /
                           real (length (ping_latencies u pings 0 3)))))"
proof -
  from testRelayCompliance_returns [OF assms] obtain info where
    info: "getRelayInfo u f = Resolved info"
    and r: "if includes_throws (supported_nips info) then
              tested r = 0 \<and> successRate r = Num 0 \<and> averageLatency r = Num 0
            else
              tested r = 3 \<and>
              successRate r = Num (real (length (ping_latencies u pings 0 3)) / 3) \<and>
              length (ping_latencies u pings 0 3) \<le> 3 \<and>
              averageLatency r = average (ping_latencies u pings 0 3)"
    by blast
  show ?thesis
  proof (cases "includes_throws (supported_nips info)")
    case True
    with info r show ?thesis by simp
  next
    case False
    with info r show ?thesis by (simp add: average_Num)
  qed
qed

text \<open>\<^verbatim>\<open>pingRelay\<close> returns the time at which the connection opened, and rejects with
  the reason of a rejected connection attempt.\<close>

lemma pingRelay_settled:
  assumes "connectToRelay u 5000 b = (s, tc, rest)"
  shows "(settled s = Fulfilled \<longrightarrow> fst (pingRelay u b) = Resolved tc) \<and>
         (settled s = Failed e \<longrightarrow>
            fst (pingRelay u b) = Rejected (JsError (''Ping failed: '' @ message_of e)))"
proof (intro conjI impI)
  assume f: "settled s = Fulfilled"
  from connectToRelay_fulfilled [OF assms f] have "status (connection s) = Connected"
    by (simp add: handed_over_def)
  with assms f show "fst (pingRelay u b) = Resolved tc" by (simp add: pingRelay_def)
next
  assume "settled s = Failed e"
  with assms show "fst (pingRelay u b) = Rejected (JsError (''Ping failed: '' @ message_of e))"
    by (simp add: pingRelay_def)
qed

lemma pingRelay_not_pending:
  "connection_settles u b \<Longrightarrow> fst (pingRelay u b) \<noteq> Pending"
  by (auto simp add: connection_settles_def pingRelay_def split: prod.splits settle.splits)

text \<open>The loop comes back when the connection attempt of every ping settles.\<close>

lemma ping_loop_total:
  "\<forall>j. i \<le> j \<and> j < n \<longrightarrow> connection_settles u (pings j) \<Longrightarrow>
     \<exists>res. ping_loop u pings n i lat sc = Some res"
proof (induction u pings n i lat sc rule: ping_loop.induct)
  case (1 u pings testCount i latencies successCount)
  show ?case
  proof (cases "i < testCount")
    case False
    then show ?thesis by (simp add: ping_loop.simps [of u pings testCount i])
  next
    case True
    have later: "\<forall>j. Suc i \<le> j \<and> j < testCount \<longrightarrow> connection_settles u (pings j)"
      using "1.prems" by auto
    have now: "fst (pingRelay u (pings i)) \<noteq> Pending"
      using "1.prems" True pingRelay_not_pending by auto
    show ?thesis
    proof (cases "fst (pingRelay u (pings i))")
      case Pending
      with now show ?thesis by simp
    next
      case (Resolved l)
      from "1.IH"(1) [OF True Resolved later] show ?thesis
        using True Resolved by (simp add: ping_loop.simps [of u pings testCount i])
    next
      case (Rejected e)
      from "1.IH"(2) [OF True Rejected later] show ?thesis
        using True Rejected by (simp add: ping_loop.simps [of u pings testCount i])
    qed
  qed
qed

lemma getRelayInfo_settles:
  "f \<noteq> FetchNever \<Longrightarrow> \<exists>info. getRelayInfo u f = Resolved info"
  by (cases f) (auto simp add: getRelayInfo_def Let_def split: sum.splits)

text \<open>Whenever the metadata request and the connection attempts of the three pings settle,
  \<^verbatim>\<open>testRelayCompliance\<close> returns a result.\<close>

lemma testRelayCompliance_total:
  assumes "f \<noteq> FetchNever" and "\<forall>i < 3. connection_settles u (pings i)"
  shows "\<exists>r. testRelayCompliance u f pings = Resolved r"
proof -
  from getRelayInfo_settles [OF assms(1)] obtain info where
    info: "getRelayInfo u f = Resolved info" ..
  from assms(2) have "\<forall>j. 0 \<le> j \<and> j < 3 \<longrightarrow> connection_settles u (pings j)" by simp
  from ping_loop_total [OF this, of "[]" 0] obtain res where
    "ping_loop u pings 3 0 [] 0 = Some res" ..
  with info show ?thesis
    by (auto simp add: testRelayCompliance_def Let_def split: prod.splits sum.splits)
qed

text \<open>
  Claim C6, at the inputs where the code departs from it. The metadata document of the
  endpoint carries the number 7 as \<^verbatim>\<open>supported_nips\<close>: \<^verbatim>\<open>includes\<close> is not a
  function of a number, the outer \<^verbatim>\<open>catch\<close> swallows the \<^verbatim>\<open>TypeError\<close>, and the
  result is returned with \<^verbatim>\<open>tested\<close> equal to 0 and without a single ping, although
  every ping would succeed. On the sibling paths, a document without the list and a
  metadata request that fails, the same endpoint gets its three pings. And when the socket
  of the first ping is refused, \<^verbatim>\<open>pingRelay\<close> never settles and
  \<^verbatim>\<open>testRelayCompliance\<close> never returns.
\<close>

theorem testRelayCompliance_unreadable_metadata:
  "testRelayCompliance ''wss://relay.example''
     (Response True 200 (Inr (JObj [(''supported_nips'', JNum 7)]))) accepting =
   Resolved
     \<lparr>tr_url = ''wss://relay.example'', nip01Compliant = False, supportsAuth = False,
      supportsCount = False, averageLatency = Num 0, successRate = Num 0, tested = 0\<rparr> \<and>
   testRelayCompliance ''wss://relay.example''
     (Response True 200 (Inr (JObj [(''software'', JStr ''relay'')]))) accepting =
   Resolved
     \<lparr>tr_url = ''wss://relay.example'', nip01Compliant = False, supportsAuth = False,
      supportsCount = False, averageLatency = Num 100, successRate = Num 1, tested = 3\<rparr> \<and>
   testRelayCompliance ''wss://relay.example''
     (FetchThrows (JsError ''Failed to fetch'')) accepting =
   Resolved
     \<lparr>tr_url = ''wss://relay.example'', nip01Compliant = False, supportsAuth = False,
      supportsCount = False, averageLatency = Num 100, successRate = Num 1, tested = 3\<rparr> \<and>
   testRelayCompliance ''wss://refusing.example''
     (FetchThrows (JsError ''Failed to fetch'')) refusing_first = Pending"
  by (simp add: compliance_defs connect_defs handler_defs accepting_def refusing_first_def
      Let_def)

subsection \<open>\<^verbatim>\<open>stressTestRelay\<close>\<close>

lemmas stress_defs = stressTestRelay_def attempt_body_def attempt_end_def average_def js_div_def

text \<open>An attempt whose connection has settled increments exactly one of the counters, and
  adds a latency exactly when it counts a success.\<close>

lemma attempt_body_counts:
  assumes "settled (fst a) \<noteq> Unsettled"
  shows "successCount (attempt_body a st) + failCount (attempt_body a st) =
           Suc (successCount st + failCount st) \<and>
         (length (latencies st) = successCount st \<longrightarrow>
            length (latencies (attempt_body a st)) = successCount (attempt_body a st))"
  using assms by (cases "settled (fst a)") (simp_all add: attempt_body_def)

lemma foldl_attempts:
  assumes "\<forall>a \<in> set xs. settled (fst a) \<noteq> Unsettled"
  shows "successCount (foldl (\<lambda>st a. attempt_body a st) st xs) +
           failCount (foldl (\<lambda>st a. attempt_body a st) st xs) =
           successCount st + failCount st + length xs \<and>
         (length (latencies st) = successCount st \<longrightarrow>
            length (latencies (foldl (\<lambda>st a. attempt_body a st) st xs)) =
            successCount (foldl (\<lambda>st a. attempt_body a st) st xs))"
  using assms
proof (induction xs arbitrary: st)
  case Nil
  then show ?case by simp
next
  case (Cons a xs)
  from Cons.prems have a: "settled (fst a) \<noteq> Unsettled"
    and xs: "\<forall>a \<in> set xs. settled (fst a) \<noteq> Unsettled" by simp_all
  from attempt_body_counts [OF a, of st] Cons.IH [OF xs, of "attempt_body a st"]
  show ?case by simp
qed

lemma stressTestRelay_counts:
  assumes "stressTestRelay u n d behs holds = Resolved r"
  shows "totalConnections r = n \<and>
         successfulConnections r + failedConnections r = nat n \<and>
         (\<exists>lat. length lat = successfulConnections r \<and> st_averageLatency r = average lat)"
proof -
  let ?attempts = "map (\<lambda>i. connectToRelay u 5000 (behs i)) [0..<nat n]"
  let ?st0 = "\<lparr>latencies = [], successCount = 0, failCount = 0\<rparr>"
  let ?final = "foldl (\<lambda>st a. attempt_body a st) ?st0 (sort_key (\<lambda>a. fst (snd a)) ?attempts)"
  from assms have small: "\<not> 4294967295 < n"
    by (auto simp add: stressTestRelay_def Let_def split: if_splits)
  from assms have settled: "\<not> list_ex (\<lambda>a. settled (fst a) = Unsettled) ?attempts"
    by (auto simp add: stressTestRelay_def Let_def split: if_splits)
  then have all: "\<forall>a \<in> set (sort_key (\<lambda>a. fst (snd a)) ?attempts). settled (fst a) \<noteq> Unsettled"
    by (simp add: list_ex_iff)
  from assms settled small have r: "totalConnections r = n"
    "successfulConnections r = successCount ?final"
    "failedConnections r = failCount ?final" "st_averageLatency r = average (latencies ?final)"
    by (auto simp add: stressTestRelay_def Let_def split: if_splits)
  from foldl_attempts [OF all, of ?st0]
  have "successCount ?final + failCount ?final = nat n"
    "length (latencies ?final) = successCount ?final"
    by simp_all
  with r show ?thesis by auto
qed

text \<open>The operation returns whenever the connection attempt of every launched attempt
  settles, and then, for a count that is not negative, the two counters add up to the
  count.\<close>

lemma stressTestRelay_total:
  assumes "n \<le> 4294967295" and "\<forall>i < nat n. connection_settles u (behs i)"
  shows "\<exists>r. stressTestRelay u n d behs holds = Resolved r"
proof -
  have "\<not> list_ex (\<lambda>a. settled (fst a) = Unsettled)
          (map (\<lambda>i. connectToRelay u 5000 (behs i)) [0..<nat n])"
    using assms(2) by (auto simp add: list_ex_iff connection_settles_def)
  with assms(1) show ?thesis by (simp add: stressTestRelay_def Let_def)
qed

lemma stressTestRelay_returns_for_counts:
  assumes "0 \<le> n" and "n \<le> 4294967295" and "\<forall>i < nat n. connection_settles u (behs i)"
  shows "\<exists>r. stressTestRelay u n d behs holds = Resolved r \<and> totalConnections r = n \<and>
           int (successfulConnections r + failedConnections r) = n"
proof -
  from stressTestRelay_total [OF assms(2,3)] obtain r where
    r: "stressTestRelay u n d behs holds = Resolved r" ..
  from stressTestRelay_counts [OF r] assms(1) r show ?thesis by auto
qed

text \<open>
  Claim C5, at the input where the code departs from it: two attempts, of which the first
  is refused (the browser fires \<^verbatim>\<open>error\<close> and \<^verbatim>\<open>close\<close> before the socket opens)
  and the second opens after 100 ms. The connection of the refused attempt never settles,
  so the attempt increments neither counter, while the other attempt counts a success;
  \<^verbatim>\<open>Promise.all\<close> waits for both, and the operation never returns a result.
\<close>

theorem stressTestRelay_never_returns_when_refused:
  "stressTestRelay ''wss://refusing.example'' 2 1000 refusing_first no_hold = Pending \<and>
   attempt_body (connectToRelay ''wss://refusing.example'' 5000 (refusing_first 0))
     \<lparr>latencies = [], successCount = 0, failCount = 0\<rparr> =
     \<lparr>latencies = [], successCount = 0, failCount = 0\<rparr> \<and>
   attempt_body (connectToRelay ''wss://refusing.example'' 5000 (refusing_first 1))
     \<lparr>latencies = [], successCount = 0, failCount = 0\<rparr> =
     \<lparr>latencies = [100], successCount = 1, failCount = 0\<rparr>"
  by (simp add: stress_defs connect_defs handler_defs refusing_first_def no_hold_def
      Let_def upt_rec)

subsection \<open>The mean latency\<close>

text \<open>
  Claim C10. The \<^verbatim>\<open>averageLatency\<close> that \<^verbatim>\<open>testRelayCompliance\<close> and
  \<^verbatim>\<open>stressTestRelay\<close> return is never the undefined result of a division by zero, and
  it is exactly 0 when no latency sample was collected: when none of the three pings
  succeeds, and when no connection of the stress test succeeds.
\<close>

theorem average_latency_zero_without_samples:
  "(testRelayCompliance u f pings = Resolved r \<longrightarrow>
      averageLatency r \<noteq> NaN \<and>
      (ping_latencies u pings 0 3 = [] \<longrightarrow> averageLatency r = Num 0)) \<and>
   (stressTestRelay u n d behs holds = Resolved r' \<longrightarrow>
      st_averageLatency r' \<noteq> NaN \<and>
      (successfulConnections r' = 0 \<longrightarrow> st_averageLatency r' = Num 0))"
proof (intro conjI impI)
  assume t: "testRelayCompliance u f pings = Resolved r"
  from testRelayCompliance_returns [OF t]
  have a: "averageLatency r = Num 0 \<or> averageLatency r = average (ping_latencies u pings 0 3)"
    by (auto split: if_splits)
  then show "averageLatency r \<noteq> NaN" by (auto simp add: average_Num split: if_splits)
  assume "ping_latencies u pings 0 3 = []"
  with a show "averageLatency r = Num 0" by (auto simp add: average_Num)
next
  assume s: "stressTestRelay u n d behs holds = Resolved r'"
  from stressTestRelay_counts [OF s] obtain lat where
    lat: "length lat = successfulConnections r'" "st_averageLatency r' = average lat" by blast
  then show "st_averageLatency r' \<noteq> NaN" by (simp add: average_Num)
  assume "successfulConnections r' = 0"
  with lat show "st_averageLatency r' = Num 0" by (simp add: average_Num)
qed

theorem average_latency_zero_without_samples_witness:
  "testRelayCompliance ''wss://relay.example'' (FetchThrows (JsError ''Failed to fetch''))
     silent =
   Resolved
     \<lparr>tr_url = ''wss://relay.example'', nip01Compliant = False, supportsAuth = False,
      supportsCount = False, averageLatency = Num 0, successRate = Num 0, tested = 3\<rparr> \<and>
   ping_latencies ''wss://relay.example'' silent 0 3 = [] \<and>
   stressTestRelay ''wss://relay.example'' 2 1000 silent no_hold =
     Resolved
       \<lparr>st_url = ''wss://relay.example'', totalConnections = 2, successfulConnections = 0,
        failedConnections = 2, st_averageLatency = Num 0, duration = 5000\<rparr> \<and>
   averageLatency
     \<lparr>tr_url = ''wss://relay.example'', nip01Compliant = False, supportsAuth = False,
      supportsCount = False, averageLatency = Num 0, successRate = Num 0, tested = 3\<rparr> = Num 0 \<and>
   st_averageLatency
       \<lparr>st_url = ''wss://relay.example'', totalConnections = 2, successfulConnections = 0,
        failedConnections = 2, st_averageLatency = Num 0, duration = 5000\<rparr> = Num 0"
proof -
  have t: "testRelayCompliance ''wss://relay.example'' (FetchThrows (JsError ''Failed to fetch''))
     silent =
   Resolved
     \<lparr>tr_url = ''wss://relay.example'', nip01Compliant = False, supportsAuth = False,
      supportsCount = False, averageLatency = Num 0, successRate = Num 0, tested = 3\<rparr>"
    by (simp add: compliance_defs connect_defs handler_defs silent_def Let_def)
  have p: "ping_latencies ''wss://relay.example'' silent 0 3 = []"
    by (simp add: ping_latencies_def pingRelay_def connect_defs handler_defs silent_def
        Let_def upt_rec map_filter_simps)
  have s: "stressTestRelay ''wss://relay.example'' 2 1000 silent no_hold =
     Resolved
       \<lparr>st_url = ''wss://relay.example'', totalConnections = 2, successfulConnections = 0,
        failedConnections = 2, st_averageLatency = Num 0, duration = 5000\<rparr>"
    by (simp add: stress_defs connect_defs handler_defs silent_def no_hold_def Let_def upt_rec)
  from average_latency_zero_without_samples
    [of "''wss://relay.example''" "FetchThrows (JsError ''Failed to fetch'')" silent _
        2 1000 silent no_hold] t p s
  show ?thesis by simp
qed

subsection \<open>\<^verbatim>\<open>Promise.all\<close> and the batch operations\<close>

lemma those_Some_map: "those xs = Some vs \<Longrightarrow> xs = map Some vs"
proof (induction xs arbitrary: vs)
  case Nil
  then show ?case by simp
next
  case (Cons x xs)
  then show ?case by (cases x) (auto split: option.splits)
qed

lemma those_None_slot: "those xs = None \<Longrightarrow> \<exists>j < length xs. xs ! j = None"
proof (induction xs)
  case Nil
  then show ?case by simp
next
  case (Cons x xs)
  show ?case
  proof (cases x)
    case None
    then show ?thesis by auto
  next
    case (Some v)
    with Cons.prems have "those xs = None" by (simp split: option.splits)
    from Cons.IH [OF this] obtain j where "j < length xs" "xs ! j = None" by auto
    then have "Suc j < length (x # xs)" "(x # xs) ! Suc j = None" by simp_all
    then show ?thesis by blast
  qed
qed

lemma slots_ok_update:
  "slots_ok ps vals \<Longrightarrow> i < length ps \<Longrightarrow> ps ! i = Resolved v \<Longrightarrow> slots_ok ps (vals[i := Some v])"
  by (auto simp add: slots_ok_def nth_list_update)

lemma slots_ok_full:
  assumes "slots_ok ps vals" and "those vals = Some vs"
  shows "ps = map Resolved vs"
proof -
  from assms(2) have v: "vals = map Some vs" by (rule those_Some_map)
  with assms(1) have len: "length vs = length ps" by (simp add: slots_ok_def)
  have "ps ! j = Resolved (vs ! j)" if "j < length ps" for j
    using assms(1) that v len by (auto simp add: slots_ok_def)
  with len show ?thesis by (simp add: list_eq_iff_nth_eq)
qed

lemma all_settle_resolved:
  "all_settle ps order vals = Resolved vs \<Longrightarrow> slots_ok ps vals \<Longrightarrow> ps = map Resolved vs"
proof (induction order arbitrary: vals)
  case Nil
  then show ?case by simp
next
  case (Cons i order)
  show ?case
  proof (cases "i < length ps")
    case False
    then show ?thesis using Cons by simp
  next
    case True
    show ?thesis
    proof (cases "ps ! i")
      case Pending
      then show ?thesis using Cons True by simp
    next
      case (Rejected e)
      then show ?thesis using Cons True by simp
    next
      case (Resolved v)
      have ok: "slots_ok ps (vals[i := Some v])"
        using slots_ok_update [OF Cons.prems(2) True Resolved] .
      show ?thesis
      proof (cases "those (vals[i := Some v])")
        case None
        then show ?thesis using Cons.prems(1) Cons.IH [OF _ ok] True Resolved by simp
      next
        case (Some ws)
        then have "ws = vs" using Cons.prems(1) True Resolved by simp
        then show ?thesis using slots_ok_full [OF ok Some] by simp
      qed
    qed
  qed
qed

lemma promise_all_resolved:
  assumes "promise_all order ps = Resolved vs"
  shows "ps = map Resolved vs"
proof (cases "ps = []")
  case True
  then show ?thesis using assms by (simp add: promise_all_def)
next
  case False
  have "slots_ok ps (replicate (length ps) None)" by (simp add: slots_ok_def)
  with assms False show ?thesis
    using all_settle_resolved [of ps order "replicate (length ps) None" vs]
    by (simp add: promise_all_def)
qed

lemma all_settle_resolves:
  assumes "slots_ok (map Resolved vs) vals" and "those vals = None"
    and "\<forall>j < length vs. vals ! j = None \<longrightarrow> j \<in> set order"
  shows "all_settle (map Resolved vs) order vals = Resolved vs"
  using assms
proof (induction order arbitrary: vals)
  case Nil
  from those_None_slot [OF Nil.prems(2)] Nil.prems(1,3) show ?case
    by (auto simp add: slots_ok_def)
next
  case (Cons i order)
  show ?case
  proof (cases "i < length vs")
    case False
    then have "\<forall>j < length vs. vals ! j = None \<longrightarrow> j \<in> set order"
      using Cons.prems(3) by auto
    from Cons.IH [OF Cons.prems(1,2) this] False show ?thesis by simp
  next
    case True
    let ?vals = "vals[i := Some (vs ! i)]"
    have ok: "slots_ok (map Resolved vs) ?vals"
      using slots_ok_update [OF Cons.prems(1), of i "vs ! i"] True by simp
    show ?thesis
    proof (cases "those ?vals")
      case (Some ws)
      have "inj (Resolved :: 'a \<Rightarrow> 'a promise)" by (simp add: inj_on_def)
      from slots_ok_full [OF ok Some] map_injective [OF _ this, of vs ws] have "ws = vs"
        by simp
      with Some True show ?thesis by simp
    next
      case None
      have len: "length vals = length vs" using Cons.prems(1) by (simp add: slots_ok_def)
      have "j \<in> set order" if j: "j < length vs" and e: "?vals ! j = None" for j
      proof -
        from e j len have ne: "j \<noteq> i" by (auto simp add: nth_list_update)
        with e have "vals ! j = None" by simp
        with Cons.prems(3) j ne show ?thesis by auto
      qed
      then have "\<forall>j < length vs. ?vals ! j = None \<longrightarrow> j \<in> set order" by blast
      from Cons.IH [OF ok None this] None True show ?thesis by simp
    qed
  qed
qed

lemma promise_all_resolves:
  assumes "\<forall>j < length vs. j \<in> set order"
  shows "promise_all order (map Resolved vs) = Resolved vs"
proof (cases "vs = []")
  case True
  then show ?thesis by (simp add: promise_all_def)
next
  case False
  have "those (replicate (length vs) (None :: 'a option)) = None"
    using False by (cases vs) simp_all
  moreover have "slots_ok (map Resolved vs) (replicate (length vs) None)"
    by (simp add: slots_ok_def)
  ultimately have "all_settle (map Resolved vs) order (replicate (length vs) None) = Resolved vs"
    using assms by (intro all_settle_resolves) simp_all
  with False show ?thesis by (simp add: promise_all_def)
qed

lemma batch_results_in_input_order:
  assumes "batchPublishToRelays order urls event behs = Resolved rs"
  shows "length rs = length urls \<and>
         (\<forall>i < length urls. fst (publishEventToRelay (urls ! i) event (behs i)) = Resolved (rs ! i))"
proof -
  let ?ps = "map (\<lambda>(i, u). fst (publishEventToRelay u event (behs i))) (enumerate 0 urls)"
  from assms have eq: "?ps = map Resolved rs"
    unfolding batchPublishToRelays_def by (rule promise_all_resolved)
  from arg_cong [OF eq, of length] have len: "length rs = length urls" by simp
  have "fst (publishEventToRelay (urls ! i) event (behs i)) = Resolved (rs ! i)"
    if "i < length urls" for i
  proof -
    have "?ps ! i = fst (publishEventToRelay (urls ! i) event (behs i))"
      using that by (simp add: nth_enumerate_eq)
    moreover have "map Resolved rs ! i = Resolved (rs ! i)" using that len by simp
    ultimately show ?thesis using eq by simp
  qed
  with len show ?thesis by simp
qed


text \<open>When every publish of a batch returns and every one of them is among those that
  settle, the batch returns, with the result of the \<open>i\<close>-th endpoint in place \<open>i\<close>,
  in whatever order they settle.\<close>

lemma batch_resolves_in_input_order:
  assumes "\<forall>i < length urls. \<exists>r. fst (publishEventToRelay (urls ! i) event (behs i)) = Resolved r"
    and "\<forall>i < length urls. i \<in> set order"
  shows "\<exists>rs. batchPublishToRelays order urls event behs = Resolved rs \<and>
           length rs = length urls \<and>
           (\<forall>i < length urls.
              fst (publishEventToRelay (urls ! i) event (behs i)) = Resolved (rs ! i))"
proof -
  define rs where
    "rs = map (\<lambda>i. case fst (publishEventToRelay (urls ! i) event (behs i)) of
                      Resolved r \<Rightarrow> r | _ \<Rightarrow> undefined) [0..<length urls]"
  have rs: "length rs = length urls"
      "\<forall>i < length urls. fst (publishEventToRelay (urls ! i) event (behs i)) = Resolved (rs ! i)"
    using assms(1) by (auto simp add: rs_def)
  have "map (\<lambda>(i, u). fst (publishEventToRelay u event (behs i))) (enumerate 0 urls) =
          map Resolved rs"
    using rs by (simp add: list_eq_iff_nth_eq nth_enumerate_eq)
  moreover have "promise_all order (map Resolved rs) = Resolved rs"
    using assms(2) rs(1) by (intro promise_all_resolves) simp
  ultimately have "batchPublishToRelays order urls event behs = Resolved rs"
    by (simp add: batchPublishToRelays_def)
  with rs show ?thesis by blast
qed

text \<open>The same holds for \<^verbatim>\<open>compareRelays\<close>.\<close>

lemma compare_results_in_input_order:
  assumes "compareRelays order urls fs pingss = Resolved rs"
  shows "length rs = length urls \<and>
         (\<forall>i < length urls. testRelayCompliance (urls ! i) (fs i) (pingss i) = Resolved (rs ! i))"
proof -
  let ?ps = "map (\<lambda>(i, u). testRelayCompliance u (fs i) (pingss i)) (enumerate 0 urls)"
  from assms have eq: "?ps = map Resolved rs"
    unfolding compareRelays_def by (rule promise_all_resolved)
  from arg_cong [OF eq, of length] have len: "length rs = length urls" by simp
  have "testRelayCompliance (urls ! i) (fs i) (pingss i) = Resolved (rs ! i)"
    if "i < length urls" for i
  proof -
    have "?ps ! i = testRelayCompliance (urls ! i) (fs i) (pingss i)"
      using that by (simp add: nth_enumerate_eq)
    moreover have "map Resolved rs ! i = Resolved (rs ! i)" using that len by simp
    ultimately show ?thesis using eq by simp
  qed
  with len show ?thesis by simp
qed

text \<open>
  Claim C7, at the input where the code departs from it: the first endpoint of a batch of
  two refuses the connection (the browser fires \<^verbatim>\<open>error\<close> and \<^verbatim>\<open>close\<close>), the second
  acknowledges the event. In whatever order the two settle, the batch never returns, and
  the result of the second endpoint, which its own publish does return, reaches no
  caller.
\<close>

theorem batch_never_returns_when_an_endpoint_refuses:
  "batchPublishToRelays order [''wss://refusing.example'', ''wss://relay.example'']
       sample_event refused_then_acked = Pending \<and>
   fst (publishEventToRelay ''wss://relay.example'' sample_event (refused_then_acked 1)) =
     Resolved
       \<lparr>relay = ''wss://relay.example'', success = JBool True, eventId = ''abc'',
        message = JStr ''stored'', pr_timestamp = 0, latency = 200\<rparr>"
proof
  show "batchPublishToRelays order [''wss://refusing.example'', ''wss://relay.example'']
       sample_event refused_then_acked = Pending"
  proof (cases "batchPublishToRelays order
      [''wss://refusing.example'', ''wss://relay.example''] sample_event refused_then_acked")
    case Pending
    then show ?thesis .
  next
    case (Rejected e)
    then show ?thesis using batchPublishToRelays_not_rejected by blast
  next
    case (Resolved rs)
    from batch_results_in_input_order [OF Resolved]
    have "fst (publishEventToRelay ''wss://refusing.example'' sample_event
        (refused_then_acked 0)) = Resolved (rs ! 0)" by fastforce
    moreover have "fst (publishEventToRelay ''wss://refusing.example'' sample_event
        (refused_then_acked 0)) = Pending"
      by (simp add: publish_defs connect_defs handler_defs refused_then_acked_def Let_def)
    ultimately show ?thesis by simp
  qed
  show "fst (publishEventToRelay ''wss://relay.example'' sample_event (refused_then_acked 1)) =
     Resolved
       \<lparr>relay = ''wss://relay.example'', success = JBool True, eventId = ''abc'',
        message = JStr ''stored'', pr_timestamp = 0, latency = 200\<rparr>"
    by (simp add: publish_defs connect_defs handler_defs refused_then_acked_def
        sample_event_def Let_def)
qed

lemma compare_resolves_in_input_order:
  assumes "\<forall>i < length urls. \<exists>r. testRelayCompliance (urls ! i) (fs i) (pingss i) = Resolved r"
    and "\<forall>i < length urls. i \<in> set order"
  shows "\<exists>rs. compareRelays order urls fs pingss = Resolved rs \<and> length rs = length urls"
proof -
  define rs where
    "rs = map (\<lambda>i. case testRelayCompliance (urls ! i) (fs i) (pingss i) of
                      Resolved r \<Rightarrow> r | _ \<Rightarrow> undefined) [0..<length urls]"
  have rs: "length rs = length urls"
      "\<forall>i < length urls. testRelayCompliance (urls ! i) (fs i) (pingss i) = Resolved (rs ! i)"
    using assms(1) by (auto simp add: rs_def)
  have "map (\<lambda>(i, u). testRelayCompliance u (fs i) (pingss i)) (enumerate 0 urls) =
          map Resolved rs"
    using rs by (simp add: list_eq_iff_nth_eq nth_enumerate_eq)
  moreover have "promise_all order (map Resolved rs) = Resolved rs"
    using assms(2) rs(1) by (intro promise_all_resolves) simp
  ultimately have "compareRelays order urls fs pingss = Resolved rs"
    by (simp add: compareRelays_def)
  with rs show ?thesis by blast
qed

subsection \<open>Every operation returns a result, and \<^verbatim>\<open>pingRelay\<close> may reject\<close>

text \<open>
  Claim C3, as amended. \<^verbatim>\<open>healthCheckRelay\<close>, \<^verbatim>\<open>publishEventToRelay\<close>,
  \<^verbatim>\<open>testRelayCompliance\<close>, \<^verbatim>\<open>batchPublishToRelays\<close> and \<^verbatim>\<open>compareRelays\<close> never
  reject, and each of them returns a result value whenever the connection attempts it waits
  for settle (and, for the last but two and the last, the metadata requests; for the batch
  operations, every settled call is handed to \<^verbatim>\<open>Promise.all\<close>). The same holds for
  \<^verbatim>\<open>stressTestRelay\<close> with a count that is a possible array length, at most
  \<open>2\<^sup>3\<^sup>2 - 1\<close>. \<^verbatim>\<open>pingRelay\<close> returns the latency when the connection opens, and
  rejects with an error \<^verbatim>\<open>Ping failed: \<close> followed by the reason when the connection
  attempt is rejected.
\<close>

theorem operations_return_results:
  "(fst (healthCheckRelay u b) \<noteq> Rejected e \<and>
      (connection_settles u b \<longrightarrow> (\<exists>r. fst (healthCheckRelay u b) = Resolved r))) \<and>
   (fst (publishEventToRelay u event b) \<noteq> Rejected e \<and>
      (connection_settles u b \<longrightarrow> (\<exists>r. fst (publishEventToRelay u event b) = Resolved r))) \<and>
   (testRelayCompliance u f pings \<noteq> Rejected e \<and>
      (f \<noteq> FetchNever \<and> (\<forall>i < 3. connection_settles u (pings i)) \<longrightarrow>
         (\<exists>r. testRelayCompliance u f pings = Resolved r))) \<and>
   (batchPublishToRelays order urls event behs \<noteq> Rejected e \<and>
      ((\<forall>i < length urls. connection_settles (urls ! i) (behs i) \<and> i \<in> set order) \<longrightarrow>
         (\<exists>rs. batchPublishToRelays order urls event behs = Resolved rs \<and>
               length rs = length urls))) \<and>
   (compareRelays order urls fs pingss \<noteq> Rejected e \<and>
      ((\<forall>i < length urls. fs i \<noteq> FetchNever \<and>
           (\<forall>j < 3. connection_settles (urls ! i) (pingss i j)) \<and> i \<in> set order) \<longrightarrow>
         (\<exists>rs. compareRelays order urls fs pingss = Resolved rs \<and> length rs = length urls))) \<and>
   (n \<le> 4294967295 \<longrightarrow>
      stressTestRelay u n d sbehs holds \<noteq> Rejected e \<and>
      ((\<forall>i < nat n. connection_settles u (sbehs i)) \<longrightarrow>
         (\<exists>r. stressTestRelay u n d sbehs holds = Resolved r))) \<and>
   (connectToRelay u 5000 b = (s, tc, rest) \<longrightarrow>
      (settled s = Fulfilled \<longrightarrow> fst (pingRelay u b) = Resolved tc) \<and>
      (settled s = Failed e \<longrightarrow>
         fst (pingRelay u b) = Rejected (JsError (''Ping failed: '' @ message_of e))))"
proof (intro conjI impI)
  show "fst (healthCheckRelay u b) \<noteq> Rejected e" by (rule healthCheckRelay_not_rejected)
  show "fst (publishEventToRelay u event b) \<noteq> Rejected e"
    by (rule publishEventToRelay_not_rejected)
  show "testRelayCompliance u f pings \<noteq> Rejected e" by (rule testRelayCompliance_not_rejected)
  show "batchPublishToRelays order urls event behs \<noteq> Rejected e"
    by (rule batchPublishToRelays_not_rejected)
  show "compareRelays order urls fs pingss \<noteq> Rejected e" by (rule compareRelays_not_rejected)
next
  assume "connection_settles u b"
  then show "\<exists>r. fst (healthCheckRelay u b) = Resolved r"
    using healthCheckRelay_total by blast
next
  assume "connection_settles u b"
  then show "\<exists>r. fst (publishEventToRelay u event b) = Resolved r"
    by (rule publishEventToRelay_total)
next
  assume "f \<noteq> FetchNever \<and> (\<forall>i < 3. connection_settles u (pings i))"
  then show "\<exists>r. testRelayCompliance u f pings = Resolved r"
    using testRelayCompliance_total by blast
next
  assume a: "\<forall>i < length urls. connection_settles (urls ! i) (behs i) \<and> i \<in> set order"
  then have "\<forall>i < length urls. \<exists>r. fst (publishEventToRelay (urls ! i) event (behs i)) = Resolved r"
    using publishEventToRelay_total by blast
  moreover from a have "\<forall>i < length urls. i \<in> set order" by blast
  ultimately show "\<exists>rs. batchPublishToRelays order urls event behs = Resolved rs \<and>
      length rs = length urls"
    using batch_resolves_in_input_order [of urls event behs order] by blast
next
  assume a: "\<forall>i < length urls. fs i \<noteq> FetchNever \<and>
      (\<forall>j < 3. connection_settles (urls ! i) (pingss i j)) \<and> i \<in> set order"
  then have "\<forall>i < length urls. \<exists>r. testRelayCompliance (urls ! i) (fs i) (pingss i) = Resolved r"
    using testRelayCompliance_total by blast
  moreover from a have "\<forall>i < length urls. i \<in> set order" by blast
  ultimately show "\<exists>rs. compareRelays order urls fs pingss = Resolved rs \<and>
      length rs = length urls"
    by (rule compare_resolves_in_input_order)
next
  assume "n \<le> 4294967295"
  then show "stressTestRelay u n d sbehs holds \<noteq> Rejected e"
    by (rule stressTestRelay_not_rejected)
next
  assume "n \<le> 4294967295" and "\<forall>i < nat n. connection_settles u (sbehs i)"
  then show "\<exists>r. stressTestRelay u n d sbehs holds = Resolved r"
    by (rule stressTestRelay_total)
next
  assume c: "connectToRelay u 5000 b = (s, tc, rest)" and "settled s = Fulfilled"
  then show "fst (pingRelay u b) = Resolved tc" using pingRelay_settled [OF c] by blast
next
  assume c: "connectToRelay u 5000 b = (s, tc, rest)" and "settled s = Failed e"
  then show "fst (pingRelay u b) = Rejected (JsError (''Ping failed: '' @ message_of e))"
    using pingRelay_settled [OF c] by blast
qed

theorem operations_return_results_witness:
  "fst (pingRelay ''wss://relay.example'' (Events [(120, Open)])) = Resolved 120 \<and>
   (\<exists>r. fst (healthCheckRelay ''wss://relay.example'' (Events [(120, Open)])) = Resolved r) \<and>
   (\<exists>r. fst (publishEventToRelay ''wss://relay.example'' sample_event (Events [(120, Open)])) =
       Resolved r) \<and>
   (\<exists>r. testRelayCompliance ''wss://relay.example'' (no_metadata 0) accepting = Resolved r) \<and>
   (\<exists>rs. batchPublishToRelays [0] [''wss://relay.example''] sample_event accepting =
       Resolved rs \<and> length rs = 1) \<and>
   (\<exists>rs. compareRelays [0] [''wss://relay.example''] no_metadata accepting_all =
       Resolved rs \<and> length rs = 1) \<and>
   (\<exists>r. stressTestRelay ''wss://relay.example'' 2 1000 silent no_hold = Resolved r)"
proof -
  let ?u = "''wss://relay.example''"
  let ?s = "\<lparr>connection =
       \<lparr>url = ?u, websocket = Some \<lparr>readyState = OPEN, calls = []\<rparr>,
        status = Connected, messageCount = 0, errorCount = 0, lastActivity = 120,
        logs = [\<lparr>timestamp = 120, log_type = Info, log_message = ''Connected to relay'',
                 log_data = None\<rparr>]\<rparr>, timeoutId = False, settled = Fulfilled\<rparr>"
  have c: "connectToRelay ?u 5000 (Events [(120, Open)]) = (?s, 120, [])"
    by (simp add: connect_defs handler_defs Let_def)
  have b: "connection_settles ?u (Events [(120, Open)])"
    by (simp add: connection_settles_def connect_defs handler_defs Let_def)
  have a: "connection_settles ?u (accepting i)" for i
    by (simp add: connection_settles_def accepting_def connect_defs handler_defs Let_def)
  have q: "connection_settles ?u (silent i)" for i
    by (simp add: connection_settles_def silent_def connect_defs handler_defs Let_def)
  have f: "no_metadata i \<noteq> FetchNever" for i by (simp add: no_metadata_def)
  have h3: "no_metadata 0 \<noteq> FetchNever \<and> (\<forall>i < 3. connection_settles ?u (accepting i))"
    using a f by simp
  have h4: "\<forall>i < length [?u]. connection_settles ([?u] ! i) (accepting i) \<and> i \<in> set [0]"
    using a by simp
  have h5: "\<forall>i < length [?u]. no_metadata i \<noteq> FetchNever \<and>
      (\<forall>j < 3. connection_settles ([?u] ! i) (accepting_all i j)) \<and> i \<in> set [0]"
    using a f by (simp add: accepting_all_def)
  have h6: "(2::int) \<le> 4294967295" by simp
  have h6': "\<forall>i < nat 2. connection_settles ?u (silent i)" using q by simp
  have h7: "settled ?s = Fulfilled" by simp
  from operations_return_results
    [where u = ?u and b = "Events [(120, Open)]" and event = sample_event
       and f = "no_metadata 0" and pings = accepting and order = "[0]" and urls = "[?u]"
       and behs = accepting and fs = no_metadata and pingss = accepting_all and n = 2
       and d = 1000 and sbehs = silent and holds = no_hold and s = ?s and tc = 120
       and rest = "[]" and e = NonError]
    c b h3 h4 h5 h6 h6' h7
  show ?thesis by simp
qed

text \<open>
  Claim C3 as it is stated fails for \<^verbatim>\<open>pingRelay\<close>: on a socket that never opens, the
  connection attempt times out and \<^verbatim>\<open>pingRelay\<close> rejects. It also fails for
  \<^verbatim>\<open>stressTestRelay\<close> with a count above the largest array length, where
  \<^verbatim>\<open>Array.from\<close> throws and the operation rejects.
\<close>

theorem pingRelay_rejects_on_timeout:
  "fst (pingRelay ''wss://silent.example'' (Events [])) =
     Rejected (JsError ''Ping failed: Connection timeout'') \<and>
   stressTestRelay ''wss://relay.example'' 4294967296 1000 silent no_hold =
     Rejected (JsError ''Invalid array length'')"
  by (simp add: pingRelay_def stressTestRelay_def connect_defs handler_defs Let_def)

subsection \<open>\<^verbatim>\<open>monitorRelay\<close>\<close>

lemmas monitor_defs =
  monitorRelay_def react_def then_callback_def catch_callback_def check_logs_def
  monitor_onclose_def monitor_onerror_def cancel_def with_socket_state_def fire_timeout_def

text \<open>
  Claim C8, at two inputs where the code departs from it. In the first, the cancel function
  is called before the connection is open: it does nothing, the socket opens and stays
  open, the interval is registered, and \<^verbatim>\<open>onLog\<close> is called at 150 ms, after the
  cancellation at 10 ms. In the second, the cancel function is called at 170 ms on an open
  connection: it closes the socket and leaves the interval registered, so the tick at
  250 ms calls \<^verbatim>\<open>onLog\<close> with the entry of the message received at 160 ms.
\<close>

theorem cancel_does_not_stop_the_monitor:
  "monitorRelay ''wss://relay.example'' None
     [(10, Cancel), (50, Socket Open), (150, Tick)] =
     \<lparr>connecting =
        \<lparr>connection =
           \<lparr>url = ''wss://relay.example'',
            websocket = Some \<lparr>readyState = OPEN, calls = []\<rparr>,
            status = Connected, messageCount = 0, errorCount = 0, lastActivity = 50,
            logs = []\<rparr>,
         timeoutId = False, settled = Fulfilled\<rparr>,
      connection_assigned = True, checkLogs = True, replaced = True,
      called =
        [(50, OnStatusChange Connected),
         (150, OnLog \<lparr>timestamp = 50, log_type = Info,
                      log_message = ''Connected to relay'', log_data = None\<rparr>)]\<rparr> \<and>
   monitorRelay ''wss://relay.example'' None
     [(50, Socket Open), (150, Tick), (160, Socket (Message None)), (170, Cancel),
      (250, Tick)] =
     \<lparr>connecting =
        \<lparr>connection =
           \<lparr>url = ''wss://relay.example'',
            websocket = Some \<lparr>readyState = CLOSING, calls = [CloseCall]\<rparr>,
            status = Connected, messageCount = 1, errorCount = 0, lastActivity = 160,
            logs = []\<rparr>,
         timeoutId = False, settled = Fulfilled\<rparr>,
      connection_assigned = True, checkLogs = True, replaced = True,
      called =
        [(50, OnStatusChange Connected),
         (150, OnLog \<lparr>timestamp = 50, log_type = Info,
                      log_message = ''Connected to relay'', log_data = None\<rparr>),
         (250, OnLog \<lparr>timestamp = 160, log_type = Received,
                      log_message = ''Message received'',
                      log_data = Some (MessageData None)\<rparr>)]\<rparr>"
  by (simp add: monitor_defs connect_defs handler_defs Let_def)

end
